theory Spec2Isabelle
  imports Complex_Main "HOL-Library.Sublist" "HOL-Library.AList"
begin

section \<open>JavaScript values\<close>

text \<open>
  The indexer handles JSON documents received from the ledger API, extended by the decoders
  with \<open>bigint\<close> values. A JavaScript number is a double; the code only tests numbers for
  truthiness, so a number is \<open>NaN\<close> or a real. An object is the list of its entries in
  insertion order, read by key with \<open>map_of\<close>.
\<close>

datatype number = NaN | Num real

datatype json =
    JUndefined
  | JNull
  | JBool bool
  | JNum number
  | JStr string
  | JBigInt int
  | JArr "json list"
  | JObj "(string \<times> json) list"

type_synonym obj = "(string \<times> json) list"

datatype exn =
    HttpError nat
  | NetworkError
  | DbError
  | TypeError
  | SyntaxError
  | RangeError

text \<open>Truthiness, as used by \<open>||\<close>, \<open>if (x)\<close> and \<open>!x\<close>.\<close>

fun truthy :: "json \<Rightarrow> bool" where
  "truthy JUndefined = False"
| "truthy JNull = False"
| "truthy (JBool b) = b"
| "truthy (JNum NaN) = False"
| "truthy (JNum (Num r)) = (r \<noteq> 0)"
| "truthy (JStr s) = (s \<noteq> [])"
| "truthy (JBigInt n) = (n \<noteq> 0)"
| "truthy (JArr xs) = True"
| "truthy (JObj kvs) = True"

definition jsOr :: "json \<Rightarrow> json \<Rightarrow> json" where
  "jsOr a b = (if truthy a then a else b)"

text \<open>Property access \<open>o[k]\<close>: \<open>undefined\<close> when the key is absent.\<close>

definition fld :: "obj \<Rightarrow> string \<Rightarrow> json" where
  "fld ob k = (case map_of ob k of None \<Rightarrow> JUndefined | Some v \<Rightarrow> v)"

definition bindE :: "exn + 'a \<Rightarrow> ('a \<Rightarrow> exn + 'b) \<Rightarrow> exn + 'b" where
  "bindE m f = (case m of Inl e \<Rightarrow> Inl e | Inr v \<Rightarrow> f v)"

fun mapE :: "('a \<Rightarrow> exn + 'b) \<Rightarrow> 'a list \<Rightarrow> exn + 'b list" where
  "mapE f [] = Inr []"
| "mapE f (x # xs) = bindE (f x) (\<lambda>y. bindE (mapE f xs) (\<lambda>ys. Inr (y # ys)))"

text \<open>\<open>s.includes(sub)\<close>\<close>

fun includesStr :: "string \<Rightarrow> string \<Rightarrow> bool" where
  "includesStr [] sub = (sub = [])"
| "includesStr (c # cs) sub = (prefix sub (c # cs) \<or> includesStr cs sub)"

text \<open>\<open>n.toString()\<close> of a bigint: its decimal representation.\<close>

definition digit :: "nat \<Rightarrow> char" where
  "digit d = ''0123456789'' ! d"

fun decimal :: "nat \<Rightarrow> string" where
  "decimal n = (if n < 10 then [digit n] else decimal (n div 10) @ [digit (n mod 10)])"

definition bigintToString :: "int \<Rightarrow> string" where
  "bigintToString i = (if i < 0 then CHR ''-'' # decimal (nat (- i)) else decimal (nat i))"

text \<open>
  The builtins \<open>BigInt(v)\<close> and \<open>parseInt(v, 10)\<close> belong to the JavaScript runtime. They are
  parameters of the model: \<open>BigInt\<close> returns a bigint or throws (\<open>None\<close>), \<open>parseInt\<close>
  returns a number. What \<open>BigInt\<close> throws is a SyntaxError, a TypeError or a RangeError; no
  caller looks at which, and the model writes \<open>SyntaxError\<close>.
\<close>

record runtime =
  BigInt :: "json \<Rightarrow> int option"
  parseInt :: "json \<Rightarrow> number"

definition bigIntE :: "runtime \<Rightarrow> json \<Rightarrow> exn + int" where
  "bigIntE rt v = (case BigInt rt v of None \<Rightarrow> Inl SyntaxError | Some n \<Rightarrow> Inr n)"


section \<open>Message types (decoders/types.ts)\<close>

definition CONFIRM_BTC_DEPOSIT :: string where
  "CONFIRM_BTC_DEPOSIT = ''/twilightproject.nyks.bridge.MsgConfirmBtcDeposit''"
definition REGISTER_BTC_DEPOSIT_ADDRESS :: string where
  "REGISTER_BTC_DEPOSIT_ADDRESS = ''/twilightproject.nyks.bridge.MsgRegisterBtcDepositAddress''"
definition REGISTER_RESERVE_ADDRESS :: string where
  "REGISTER_RESERVE_ADDRESS = ''/twilightproject.nyks.bridge.MsgRegisterReserveAddress''"
definition BOOTSTRAP_FRAGMENT :: string where
  "BOOTSTRAP_FRAGMENT = ''/twilightproject.nyks.bridge.MsgBootstrapFragment''"
definition WITHDRAW_BTC_REQUEST :: string where
  "WITHDRAW_BTC_REQUEST = ''/twilightproject.nyks.bridge.MsgWithdrawBtcRequest''"
definition SWEEP_PROPOSAL :: string where
  "SWEEP_PROPOSAL = ''/twilightproject.nyks.bridge.MsgSweepProposal''"
definition WITHDRAW_TX_SIGNED :: string where
  "WITHDRAW_TX_SIGNED = ''/twilightproject.nyks.bridge.MsgWithdrawTxSigned''"
definition WITHDRAW_TX_FINAL :: string where
  "WITHDRAW_TX_FINAL = ''/twilightproject.nyks.bridge.MsgWithdrawTxFinal''"
definition CONFIRM_BTC_WITHDRAW :: string where
  "CONFIRM_BTC_WITHDRAW = ''/twilightproject.nyks.bridge.MsgConfirmBtcWithdraw''"
definition SIGN_REFUND :: string where
  "SIGN_REFUND = ''/twilightproject.nyks.bridge.MsgSignRefund''"
definition BROADCAST_TX_SWEEP :: string where
  "BROADCAST_TX_SWEEP = ''/twilightproject.nyks.bridge.MsgBroadcastTxSweep''"
definition SIGN_SWEEP :: string where
  "SIGN_SWEEP = ''/twilightproject.nyks.bridge.MsgSignSweep''"
definition PROPOSE_REFUND_HASH :: string where
  "PROPOSE_REFUND_HASH = ''/twilightproject.nyks.bridge.MsgProposeRefundHash''"
definition UNSIGNED_TX_SWEEP :: string where
  "UNSIGNED_TX_SWEEP = ''/twilightproject.nyks.bridge.MsgUnsignedTxSweep''"
definition UNSIGNED_TX_REFUND :: string where
  "UNSIGNED_TX_REFUND = ''/twilightproject.nyks.bridge.MsgUnsignedTxRefund''"
definition BROADCAST_TX_REFUND :: string where
  "BROADCAST_TX_REFUND = ''/twilightproject.nyks.bridge.MsgBroadcastTxRefund''"
definition PROPOSE_SWEEP_ADDRESS :: string where
  "PROPOSE_SWEEP_ADDRESS = ''/twilightproject.nyks.bridge.MsgProposeSweepAddress''"
definition SET_DELEGATE_ADDRESSES :: string where
  "SET_DELEGATE_ADDRESSES = ''/twilightproject.nyks.forks.MsgSetDelegateAddresses''"
definition SEEN_BTC_CHAIN_TIP :: string where
  "SEEN_BTC_CHAIN_TIP = ''/twilightproject.nyks.forks.MsgSeenBtcChainTip''"
definition SIGNER_APPLICATION :: string where
  "SIGNER_APPLICATION = ''/twilightproject.nyks.volt.MsgSignerApplication''"
definition ACCEPT_SIGNERS :: string where
  "ACCEPT_SIGNERS = ''/twilightproject.nyks.volt.MsgAcceptSigners''"
definition TRANSFER_TX :: string where
  "TRANSFER_TX = ''/twilightproject.nyks.zkos.MsgTransferTx''"
definition MINT_BURN_TRADING_BTC :: string where
  "MINT_BURN_TRADING_BTC = ''/twilightproject.nyks.zkos.MsgMintBurnTradingBtc''"

text \<open>\<open>MESSAGE_TYPES\<close>: constant name and type identifier, in declaration order.\<close>

definition MESSAGE_TYPES :: "(string \<times> string) list" where
  "MESSAGE_TYPES =
    [(''CONFIRM_BTC_DEPOSIT'', CONFIRM_BTC_DEPOSIT),
     (''REGISTER_BTC_DEPOSIT_ADDRESS'', REGISTER_BTC_DEPOSIT_ADDRESS),
     (''REGISTER_RESERVE_ADDRESS'', REGISTER_RESERVE_ADDRESS),
     (''BOOTSTRAP_FRAGMENT'', BOOTSTRAP_FRAGMENT),
     (''WITHDRAW_BTC_REQUEST'', WITHDRAW_BTC_REQUEST),
     (''SWEEP_PROPOSAL'', SWEEP_PROPOSAL),
     (''WITHDRAW_TX_SIGNED'', WITHDRAW_TX_SIGNED),
     (''WITHDRAW_TX_FINAL'', WITHDRAW_TX_FINAL),
     (''CONFIRM_BTC_WITHDRAW'', CONFIRM_BTC_WITHDRAW),
     (''SIGN_REFUND'', SIGN_REFUND),
     (''BROADCAST_TX_SWEEP'', BROADCAST_TX_SWEEP),
     (''SIGN_SWEEP'', SIGN_SWEEP),
     (''PROPOSE_REFUND_HASH'', PROPOSE_REFUND_HASH),
     (''UNSIGNED_TX_SWEEP'', UNSIGNED_TX_SWEEP),
     (''UNSIGNED_TX_REFUND'', UNSIGNED_TX_REFUND),
     (''BROADCAST_TX_REFUND'', BROADCAST_TX_REFUND),
     (''PROPOSE_SWEEP_ADDRESS'', PROPOSE_SWEEP_ADDRESS),
     (''SET_DELEGATE_ADDRESSES'', SET_DELEGATE_ADDRESSES),
     (''SEEN_BTC_CHAIN_TIP'', SEEN_BTC_CHAIN_TIP),
     (''SIGNER_APPLICATION'', SIGNER_APPLICATION),
     (''ACCEPT_SIGNERS'', ACCEPT_SIGNERS),
     (''TRANSFER_TX'', TRANSFER_TX),
     (''MINT_BURN_TRADING_BTC'', MINT_BURN_TRADING_BTC)]"

text \<open>\<open>MESSAGE_TYPE_NAMES\<close>: the reverse mapping, from type identifier to constant name.\<close>

definition MESSAGE_TYPE_NAMES :: "string \<Rightarrow> string option" where
  "MESSAGE_TYPE_NAMES = map_of (map (\<lambda>(key, v). (v, key)) MESSAGE_TYPES)"

definition getModuleFromType :: "string \<Rightarrow> string option" where
  "getModuleFromType msgType =
    (if includesStr msgType ''.bridge.'' then Some ''bridge''
     else if includesStr msgType ''.forks.'' then Some ''forks''
     else if includesStr msgType ''.volt.'' then Some ''volt''
     else if includesStr msgType ''.zkos.'' then Some ''zkos''
     else None)"

definition isBridgeMessage :: "string \<Rightarrow> bool" where
  "isBridgeMessage msgType = includesStr msgType ''.bridge.''"

definition isForksMessage :: "string \<Rightarrow> bool" where
  "isForksMessage msgType = includesStr msgType ''.forks.''"

definition isVoltMessage :: "string \<Rightarrow> bool" where
  "isVoltMessage msgType = includesStr msgType ''.volt.''"

definition isZkosMessage :: "string \<Rightarrow> bool" where
  "isZkosMessage msgType = includesStr msgType ''.zkos.''"

section \<open>The decoders\<close>

text \<open>
  A decoder returns an object literal. Its property values are evaluated in source order and
  the first one that throws ends the evaluation: \<open>objE\<close> takes the entries with the
  outcome of each value expression.
\<close>

definition objE :: "(string \<times> (exn + json)) list \<Rightarrow> exn + obj" where
  "objE entries = mapE (\<lambda>(k, m). bindE m (\<lambda>v. Inr (k, v))) entries"

text \<open>\<open>msg.src\<close>\<close>

definition cp :: "obj \<Rightarrow> string \<Rightarrow> exn + json" where
  "cp msg src = Inr (fld msg src)"

text \<open>\<open>BigInt(msg.src || '0')\<close>\<close>

definition big :: "runtime \<Rightarrow> obj \<Rightarrow> string \<Rightarrow> exn + json" where
  "big rt msg src = bindE (bigIntE rt (jsOr (fld msg src) (JStr ''0''))) (\<lambda>n. Inr (JBigInt n))"

text \<open>\<open>parseInt(msg.src || '0', 10)\<close>\<close>

definition pint :: "runtime \<Rightarrow> obj \<Rightarrow> string \<Rightarrow> exn + json" where
  "pint rt msg src = Inr (JNum (parseInt rt (jsOr (fld msg src) (JStr ''0''))))"

text \<open>
  \<open>v.map((id) => BigInt(id))\<close>: \<open>map\<close> exists on arrays only; on any other (truthy) value
  the call throws a TypeError.
\<close>

definition bigs :: "runtime \<Rightarrow> json \<Rightarrow> exn + json" where
  "bigs rt v =
    (case v of
       JArr ids \<Rightarrow> bindE (mapE (bigIntE rt) ids) (\<lambda>ns. Inr (JArr (map JBigInt ns)))
     | _ \<Rightarrow> Inl TypeError)"

subsection \<open>Bridge module (decoders/bridge.ts)\<close>

definition decodeConfirmBtcDeposit :: "runtime \<Rightarrow> obj \<Rightarrow> exn + obj" where
  "decodeConfirmBtcDeposit rt msg = objE
    [(''reserveAddress'', cp msg ''reserveAddress''),
     (''depositAmount'', big rt msg ''depositAmount''),
     (''btcHeight'', big rt msg ''height''),
     (''btcHash'', cp msg ''hash''),
     (''twilightDepositAddress'', cp msg ''twilightDepositAddress''),
     (''oracleAddress'', cp msg ''oracleAddress'')]"

definition decodeRegisterBtcDepositAddress :: "runtime \<Rightarrow> obj \<Rightarrow> exn + obj" where
  "decodeRegisterBtcDepositAddress rt msg = objE
    [(''btcDepositAddress'', cp msg ''btcDepositAddress''),
     (''btcSatoshiTestAmount'', big rt msg ''btcSatoshiTestAmount''),
     (''twilightStakingAmount'', big rt msg ''twilightStakingAmount''),
     (''twilightAddress'', cp msg ''twilightAddress'')]"

definition decodeRegisterReserveAddress :: "runtime \<Rightarrow> obj \<Rightarrow> exn + obj" where
  "decodeRegisterReserveAddress rt msg = objE
    [(''fragmentId'', big rt msg ''fragmentId''),
     (''reserveScript'', cp msg ''reserveScript''),
     (''reserveAddress'', cp msg ''reserveAddress''),
     (''judgeAddress'', cp msg ''judgeAddress'')]"

definition decodeBootstrapFragment :: "runtime \<Rightarrow> obj \<Rightarrow> exn + obj" where
  "decodeBootstrapFragment rt msg = objE
    [(''judgeAddress'', cp msg ''judgeAddress''),
     (''numOfSigners'', pint rt msg ''numOfSigners''),
     (''threshold'', pint rt msg ''threshold''),
     (''signerApplicationFee'', big rt msg ''signerApplicationFee''),
     (''fragmentFeeBips'', pint rt msg ''fragmentFeeBips''),
     (''arbitraryData'', cp msg ''arbitraryData''),
     (''validatorAddress'', cp msg ''validatorAddress'')]"

definition decodeWithdrawBtcRequest :: "runtime \<Rightarrow> obj \<Rightarrow> exn + obj" where
  "decodeWithdrawBtcRequest rt msg = objE
    [(''withdrawAddress'', cp msg ''withdrawAddress''),
     (''reserveId'', big rt msg ''reserveId''),
     (''withdrawAmount'', big rt msg ''withdrawAmount''),
     (''twilightAddress'', cp msg ''twilightAddress'')]"

definition decodeSweepProposal :: "runtime \<Rightarrow> obj \<Rightarrow> exn + obj" where
  "decodeSweepProposal rt msg = objE
    [(''reserveId'', big rt msg ''reserveId''),
     (''newReserveAddress'', cp msg ''newReserveAddress''),
     (''judgeAddress'', cp msg ''judgeAddress''),
     (''btcBlockNumber'', big rt msg ''BtcBlockNumber''),
     (''btcRelayCapacityValue'', big rt msg ''btcRelayCapacityValue''),
     (''btcTxHash'', cp msg ''btcTxHash''),
     (''unlockHeight'', big rt msg ''UnlockHeight''),
     (''roundId'', big rt msg ''roundId''),
     (''oracleAddress'', cp msg ''oracleAddress'')]"

definition decodeWithdrawTxSigned :: "runtime \<Rightarrow> obj \<Rightarrow> exn + obj" where
  "decodeWithdrawTxSigned rt msg = objE
    [(''creator'', cp msg ''creator''),
     (''validatorAddress'', cp msg ''validatorAddress''),
     (''btcTxSigned'', cp msg ''btcTxSigned'')]"

definition decodeWithdrawTxFinal :: "runtime \<Rightarrow> obj \<Rightarrow> exn + obj" where
  "decodeWithdrawTxFinal rt msg = objE
    [(''creator'', cp msg ''creator''),
     (''judgeAddress'', cp msg ''judgeAddress''),
     (''btcTx'', cp msg ''btcTx'')]"

definition decodeConfirmBtcWithdraw :: "runtime \<Rightarrow> obj \<Rightarrow> exn + obj" where
  "decodeConfirmBtcWithdraw rt msg = objE
    [(''btcTxHash'', cp msg ''txHash''),
     (''btcHeight'', big rt msg ''height''),
     (''btcHash'', cp msg ''hash''),
     (''judgeAddress'', cp msg ''judgeAddress'')]"

definition decodeSignRefund :: "runtime \<Rightarrow> obj \<Rightarrow> exn + obj" where
  "decodeSignRefund rt msg = objE
    [(''reserveId'', big rt msg ''reserveId''),
     (''roundId'', big rt msg ''roundId''),
     (''signerPublicKey'', cp msg ''signerPublicKey''),
     (''refundSignatures'', Inr (jsOr (fld msg ''refundSignature'') (JArr []))),
     (''signerAddress'', cp msg ''signerAddress'')]"

definition decodeBroadcastTxSweep :: "runtime \<Rightarrow> obj \<Rightarrow> exn + obj" where
  "decodeBroadcastTxSweep rt msg = objE
    [(''reserveId'', big rt msg ''reserveId''),
     (''roundId'', big rt msg ''roundId''),
     (''signedSweepTx'', cp msg ''signedSweepTx''),
     (''judgeAddress'', cp msg ''judgeAddress'')]"

definition decodeSignSweep :: "runtime \<Rightarrow> obj \<Rightarrow> exn + obj" where
  "decodeSignSweep rt msg = objE
    [(''reserveId'', big rt msg ''reserveId''),
     (''roundId'', big rt msg ''roundId''),
     (''signerPublicKey'', cp msg ''signerPublicKey''),
     (''sweepSignatures'', Inr (jsOr (fld msg ''sweepSignature'') (JArr []))),
     (''signerAddress'', cp msg ''signerAddress'')]"

definition decodeProposeRefundHash :: "runtime \<Rightarrow> obj \<Rightarrow> exn + obj" where
  "decodeProposeRefundHash rt msg = objE
    [(''refundHash'', cp msg ''refundHash''),
     (''judgeAddress'', cp msg ''judgeAddress'')]"

definition decodeUnsignedTxSweep :: "runtime \<Rightarrow> obj \<Rightarrow> exn + obj" where
  "decodeUnsignedTxSweep rt msg = objE
    [(''txId'', cp msg ''txId''),
     (''btcUnsignedSweepTx'', cp msg ''btcUnsignedSweepTx''),
     (''reserveId'', big rt msg ''reserveId''),
     (''roundId'', big rt msg ''roundId''),
     (''judgeAddress'', cp msg ''judgeAddress'')]"

definition decodeUnsignedTxRefund :: "runtime \<Rightarrow> obj \<Rightarrow> exn + obj" where
  "decodeUnsignedTxRefund rt msg = objE
    [(''reserveId'', big rt msg ''reserveId''),
     (''roundId'', big rt msg ''roundId''),
     (''btcUnsignedRefundTx'', cp msg ''btcUnsignedRefundTx''),
     (''judgeAddress'', cp msg ''judgeAddress'')]"

definition decodeBroadcastTxRefund :: "runtime \<Rightarrow> obj \<Rightarrow> exn + obj" where
  "decodeBroadcastTxRefund rt msg = objE
    [(''reserveId'', big rt msg ''reserveId''),
     (''roundId'', big rt msg ''roundId''),
     (''signedRefundTx'', cp msg ''signedRefundTx''),
     (''judgeAddress'', cp msg ''judgeAddress'')]"

definition decodeProposeSweepAddress :: "runtime \<Rightarrow> obj \<Rightarrow> exn + obj" where
  "decodeProposeSweepAddress rt msg = objE
    [(''btcAddress'', cp msg ''btcAddress''),
     (''btcScript'', cp msg ''btcScript''),
     (''reserveId'', big rt msg ''reserveId''),
     (''roundId'', big rt msg ''roundId''),
     (''judgeAddress'', cp msg ''judgeAddress'')]"

subsection \<open>Forks module (decoders/forks.ts)\<close>

definition decodeSetDelegateAddresses :: "runtime \<Rightarrow> obj \<Rightarrow> exn + obj" where
  "decodeSetDelegateAddresses rt msg = objE
    [(''validatorAddress'', cp msg ''validatorAddress''),
     (''btcOracleAddress'', cp msg ''btcOracleAddress''),
     (''btcPublicKey'', cp msg ''btcPublicKey''),
     (''zkOracleAddress'', Inr (jsOr (fld msg ''zkOracleAddress'') JNull))]"

definition decodeSeenBtcChainTip :: "runtime \<Rightarrow> obj \<Rightarrow> exn + obj" where
  "decodeSeenBtcChainTip rt msg = objE
    [(''btcHeight'', big rt msg ''height''),
     (''btcHash'', cp msg ''hash''),
     (''btcOracleAddress'', cp msg ''btcOracleAddress'')]"

subsection \<open>Volt module (decoders/volt.ts)\<close>

definition decodeSignerApplication :: "runtime \<Rightarrow> obj \<Rightarrow> exn + obj" where
  "decodeSignerApplication rt msg = objE
    [(''fragmentId'', big rt msg ''fragmentId''),
     (''applicationFee'', big rt msg ''applicationFee''),
     (''feeBips'', pint rt msg ''feeBips''),
     (''btcPubKey'', cp msg ''btcPubKey''),
     (''signerAddress'', cp msg ''signerAddress'')]"

definition decodeAcceptSigners :: "runtime \<Rightarrow> obj \<Rightarrow> exn + obj" where
  "decodeAcceptSigners rt msg = objE
    [(''fragmentId'', big rt msg ''fragmentId''),
     (''signerApplicationIds'', bigs rt (jsOr (fld msg ''signerApplicationIds'') (JArr []))),
     (''judgeAddress'', cp msg ''judgeAddress'')]"

subsection \<open>zkOS module (decoders/zkos.ts)\<close>

definition decodeTransferTx :: "runtime \<Rightarrow> obj \<Rightarrow> exn + obj" where
  "decodeTransferTx rt msg = objE
    [(''zkTxId'', cp msg ''txId''),
     (''txByteCode'', cp msg ''txByteCode''),
     (''txFee'', big rt msg ''txFee''),
     (''zkOracleAddress'', cp msg ''zkOracleAddress'')]"

definition decodeMintBurnTradingBtc :: "runtime \<Rightarrow> obj \<Rightarrow> exn + obj" where
  "decodeMintBurnTradingBtc rt msg = objE
    [(''mintOrBurn'', cp msg ''mintOrBurn''),
     (''btcValue'', big rt msg ''btcValue''),
     (''qqAccount'', cp msg ''qqAccount''),
     (''encryptScalar'', cp msg ''encryptScalar''),
     (''twilightAddress'', cp msg ''twilightAddress'')]"

section \<open>Message dispatch (decoders/index.ts)\<close>

text \<open>
  A message is an object with a string under \<open>@type\<close>: the interface \<open>BaseMessage\<close>
  declares \<open>'@type': string\<close>, and these are the messages the model covers.
  \<open>msgTypeOf\<close> reads the string. For \<open>undefined\<close>, \<open>null\<close>, a boolean, a number or an
  object under \<open>@type\<close> the call \<open>msgType.split\<close> throws a TypeError, which is what
  \<open>None\<close> stands for. An array under \<open>@type\<close> is outside the model (it is treated like the
  other values, although an array whose string form is a key of \<open>MESSAGE_TYPE_NAMES\<close> does
  not reach \<open>split\<close>).
\<close>

definition msgTypeOf :: "obj \<Rightarrow> string option" where
  "msgTypeOf msg = (case fld msg ''@type'' of JStr t \<Rightarrow> Some t | _ \<Rightarrow> None)"

text \<open>\<open>data = { ...msg }; delete data['@type']\<close>\<close>

definition passthrough :: "obj \<Rightarrow> obj" where
  "passthrough msg = filter (\<lambda>(k, v). k \<noteq> ''@type'') msg"

text \<open>
  \<open>MESSAGE_TYPE_NAMES\<close> is a plain object, so a lookup also finds the members it inherits
  from \<open>Object.prototype\<close>. Such a member is truthy and not a string: for a type
  identifier with one of these names, \<open>typeName\<close> is that member.
\<close>

definition OBJECT_PROTOTYPE_MEMBERS :: "string list" where
  "OBJECT_PROTOTYPE_MEMBERS =
    [''constructor'', ''__defineGetter__'', ''__defineSetter__'', ''hasOwnProperty'',
     ''__lookupGetter__'', ''__lookupSetter__'', ''isPrototypeOf'', ''propertyIsEnumerable'',
     ''toString'', ''valueOf'', ''__proto__'', ''toLocaleString'']"

datatype type_name = Name string | Member string

record decoded_message =
  dtype :: string
  typeName :: type_name
  module :: "string option"
  data :: obj
  raw :: obj

text \<open>
  \<open>MESSAGE_TYPE_NAMES[msgType] || msgType.split('.').pop() || 'Unknown'\<close>;
  \<open>lastSegment\<close> is \<open>msgType.split('.').pop()\<close>.
\<close>

definition lastSegment :: "string \<Rightarrow> string" where
  "lastSegment t = rev (takeWhile (\<lambda>c. c \<noteq> CHR ''.'') (rev t))"

definition typeNameOf :: "string \<Rightarrow> type_name" where
  "typeNameOf msgType =
    (case MESSAGE_TYPE_NAMES msgType of
       Some n \<Rightarrow> Name n
     | None \<Rightarrow>
         (if msgType \<in> set OBJECT_PROTOTYPE_MEMBERS then Member msgType
          else if lastSegment msgType \<noteq> [] then Name (lastSegment msgType)
          else Name ''Unknown''))"

definition decodeBridge :: "runtime \<Rightarrow> string \<Rightarrow> obj \<Rightarrow> exn + obj" where
  "decodeBridge rt msgType msg =
    (if msgType = CONFIRM_BTC_DEPOSIT then decodeConfirmBtcDeposit rt msg
     else if msgType = REGISTER_BTC_DEPOSIT_ADDRESS then decodeRegisterBtcDepositAddress rt msg
     else if msgType = REGISTER_RESERVE_ADDRESS then decodeRegisterReserveAddress rt msg
     else if msgType = BOOTSTRAP_FRAGMENT then decodeBootstrapFragment rt msg
     else if msgType = WITHDRAW_BTC_REQUEST then decodeWithdrawBtcRequest rt msg
     else if msgType = SWEEP_PROPOSAL then decodeSweepProposal rt msg
     else if msgType = WITHDRAW_TX_SIGNED then decodeWithdrawTxSigned rt msg
     else if msgType = WITHDRAW_TX_FINAL then decodeWithdrawTxFinal rt msg
     else if msgType = CONFIRM_BTC_WITHDRAW then decodeConfirmBtcWithdraw rt msg
     else if msgType = SIGN_REFUND then decodeSignRefund rt msg
     else if msgType = BROADCAST_TX_SWEEP then decodeBroadcastTxSweep rt msg
     else if msgType = SIGN_SWEEP then decodeSignSweep rt msg
     else if msgType = PROPOSE_REFUND_HASH then decodeProposeRefundHash rt msg
     else if msgType = UNSIGNED_TX_SWEEP then decodeUnsignedTxSweep rt msg
     else if msgType = UNSIGNED_TX_REFUND then decodeUnsignedTxRefund rt msg
     else if msgType = BROADCAST_TX_REFUND then decodeBroadcastTxRefund rt msg
     else if msgType = PROPOSE_SWEEP_ADDRESS then decodeProposeSweepAddress rt msg
     else Inr (passthrough msg))"

definition decodeForks :: "runtime \<Rightarrow> string \<Rightarrow> obj \<Rightarrow> exn + obj" where
  "decodeForks rt msgType msg =
    (if msgType = SET_DELEGATE_ADDRESSES then decodeSetDelegateAddresses rt msg
     else if msgType = SEEN_BTC_CHAIN_TIP then decodeSeenBtcChainTip rt msg
     else Inr (passthrough msg))"

definition decodeVolt :: "runtime \<Rightarrow> string \<Rightarrow> obj \<Rightarrow> exn + obj" where
  "decodeVolt rt msgType msg =
    (if msgType = SIGNER_APPLICATION then decodeSignerApplication rt msg
     else if msgType = ACCEPT_SIGNERS then decodeAcceptSigners rt msg
     else Inr (passthrough msg))"

definition decodeZkos :: "runtime \<Rightarrow> string \<Rightarrow> obj \<Rightarrow> exn + obj" where
  "decodeZkos rt msgType msg =
    (if msgType = TRANSFER_TX then decodeTransferTx rt msg
     else if msgType = MINT_BURN_TRADING_BTC then decodeMintBurnTradingBtc rt msg
     else Inr (passthrough msg))"

text \<open>The body of the \<open>try\<close> block of \<open>decodeMessage\<close>: \<open>Inl\<close> when a decoder throws.\<close>

definition decodeData :: "runtime \<Rightarrow> string \<Rightarrow> obj \<Rightarrow> exn + obj" where
  "decodeData rt msgType msg =
    (if isBridgeMessage msgType then decodeBridge rt msgType msg
     else if isForksMessage msgType then decodeForks rt msgType msg
     else if isVoltMessage msgType then decodeVolt rt msgType msg
     else if isZkosMessage msgType then decodeZkos rt msgType msg
     else Inr (passthrough msg))"

definition decodeMessage :: "runtime \<Rightarrow> obj \<Rightarrow> exn + decoded_message" where
  "decodeMessage rt msg =
    (case msgTypeOf msg of
       None \<Rightarrow> Inl TypeError
     | Some msgType \<Rightarrow>
         Inr \<lparr> dtype = msgType,
               typeName = typeNameOf msgType,
               module = getModuleFromType msgType,
               data = (case decodeData rt msgType msg of
                         Inr d \<Rightarrow> d
                       | Inl error \<Rightarrow> passthrough msg),
               raw = msg \<rparr>)"

text \<open>
  \<open>serializeDecodedData\<close>: a bigint becomes its decimal string; in an array only the
  elements that are themselves bigints are converted; an object that is not an array is
  serialized recursively; every other value is kept.
\<close>

definition serializeElement :: "json \<Rightarrow> json" where
  "serializeElement v = (case v of JBigInt n \<Rightarrow> JStr (bigintToString n) | _ \<Rightarrow> v)"

fun serializeValue :: "json \<Rightarrow> json"
  and serializeDecodedData :: "obj \<Rightarrow> obj" where
  "serializeValue (JBigInt n) = JStr (bigintToString n)"
| "serializeValue (JArr vs) = JArr (map serializeElement vs)"
| "serializeValue (JObj kvs) = JObj (serializeDecodedData kvs)"
| "serializeValue JUndefined = JUndefined"
| "serializeValue JNull = JNull"
| "serializeValue (JBool b) = JBool b"
| "serializeValue (JNum x) = JNum x"
| "serializeValue (JStr s) = JStr s"
| "serializeDecodedData [] = []"
| "serializeDecodedData ((key, v) # kvs) = (key, serializeValue v) # serializeDecodedData kvs"


section \<open>Ledger responses (lcd-client.ts)\<close>

text \<open>
  The fields of the ledger responses that \<open>processBlock\<close> and \<open>processTransaction\<close> read.
  A field the code guards with \<open>?.\<close> or \<open>||\<close> is optional. A timestamp is kept as the
  time string it is built from.
\<close>

type_synonym timestamp = string

record block_info =
  block_id_hash :: string
  header_time :: timestamp
  proposer_address :: string
  last_block_id_hash :: "string option"

record tx_event =
  ev_type :: string
  ev_attributes :: "(string \<times> string) list"

record signer_info =
  public_key_key :: "string option"

record auth_info =
  signer_infos :: "signer_info list option"
  fee :: json

record tx_body =
  messages :: "obj list option"
  memo :: string

record tx_response =
  txhash :: string
  code :: int
  raw_log :: string
  gas_wanted :: string
  gas_used :: string
  body :: "tx_body option"
  auth :: "auth_info option"
  events :: "tx_event list option"

section \<open>Transactions (sync.ts, processTransaction)\<close>

record stored_message =
  m_type :: string
  m_typeName :: type_name
  m_module :: "string option"
  m_data :: obj

record processed_transaction =
  t_hash :: string
  t_blockHeight :: int
  t_blockTime :: timestamp
  t_type :: json
  t_messageTypes :: "json list"
  t_messages :: "stored_message list"
  t_fee :: json
  t_gasUsed :: int
  t_gasWanted :: int
  t_memo :: "string option"
  t_status :: string
  t_errorLog :: "string option"
  t_signers :: "string list"

text \<open>\<open>messages.map((msg) => { const decoded = decodeMessage(msg); return {...} })\<close>\<close>

definition decodeMessages :: "runtime \<Rightarrow> obj list \<Rightarrow> exn + stored_message list" where
  "decodeMessages rt msgs =
    mapE (\<lambda>msg. bindE (decodeMessage rt msg) (\<lambda>decoded.
            Inr \<lparr> m_type = dtype decoded,
                  m_typeName = typeName decoded,
                  m_module = module decoded,
                  m_data = serializeDecodedData (data decoded) \<rparr>)) msgs"

text \<open>The signer loop: a key is pushed when \<open>signerInfo.public_key?.key\<close> is truthy.\<close>

definition extractSigners :: "auth_info option \<Rightarrow> string list" where
  "extractSigners txAuthInfo =
    (case txAuthInfo of
       None \<Rightarrow> []
     | Some ai \<Rightarrow>
        (case signer_infos ai of
           None \<Rightarrow> []
         | Some infos \<Rightarrow>
             concat (map (\<lambda>si. case public_key_key si of
                                  None \<Rightarrow> []
                                | Some k \<Rightarrow> if k \<noteq> [] then [k] else []) infos)))"

definition processTransaction ::
  "runtime \<Rightarrow> tx_response \<Rightarrow> int \<Rightarrow> timestamp \<Rightarrow> exn + processed_transaction" where
  "processTransaction rt tx blockHeight blockTime =
    (let msgs = (case body tx of
                   None \<Rightarrow> []
                 | Some b \<Rightarrow> (case messages b of None \<Rightarrow> [] | Some ms \<Rightarrow> ms));
         messageTypes = map (\<lambda>m. fld m ''@type'') msgs;
         primaryType = jsOr (case messageTypes of [] \<Rightarrow> JUndefined | t # ts \<Rightarrow> t) (JStr ''unknown'');
         signers = extractSigners (auth tx)
     in bindE (decodeMessages rt msgs) (\<lambda>decodedMessages.
        bindE (bigIntE rt (jsOr (JStr (gas_used tx)) (JStr ''0''))) (\<lambda>gasUsed.
        bindE (bigIntE rt (jsOr (JStr (gas_wanted tx)) (JStr ''0''))) (\<lambda>gasWanted.
        Inr \<lparr> t_hash = txhash tx,
              t_blockHeight = blockHeight,
              t_blockTime = blockTime,
              t_type = primaryType,
              t_messageTypes = messageTypes,
              t_messages = decodedMessages,
              t_fee = (case auth tx of None \<Rightarrow> JNull | Some ai \<Rightarrow> jsOr (fee ai) JNull),
              t_gasUsed = gasUsed,
              t_gasWanted = gasWanted,
              t_memo = (case body tx of
                          None \<Rightarrow> None
                        | Some b \<Rightarrow> if memo b \<noteq> [] then Some (memo b) else None),
              t_status = (if code tx = 0 then ''success'' else ''failed''),
              t_errorLog = (if code tx \<noteq> 0 then Some (raw_log tx) else None),
              t_signers = signers \<rparr>))))"

section \<open>The persistence store\<close>

text \<open>
  The core tables, as lists of rows. \<open>Block\<close> is keyed by height, \<open>Transaction\<close> by hash,
  \<open>Account\<close> by address; \<open>Event\<close> has no key besides its generated id. The row
  \<open>lastIndexedHeight\<close> of \<open>IndexerState\<close> holds \<open>height.toString()\<close> and is read back
  with \<open>parseInt\<close>; the model keeps the integer, \<open>None\<close> when the row is absent. A gas
  column of a block is \<open>None\<close> when the writer did not supply it.
\<close>

record block_row =
  b_height :: int
  b_hash :: string
  b_timestamp :: timestamp
  b_proposer :: "string option"
  b_txCount :: nat
  b_gasUsed :: "int option"
  b_gasWanted :: "int option"

record event_row =
  e_txHash :: "string option"
  e_blockHeight :: int
  e_type :: string
  e_attributes :: "(string \<times> string) list"

record account_row =
  a_address :: string
  a_txCount :: nat
  a_firstSeen :: timestamp
  a_lastSeen :: timestamp

record store =
  blocks :: "block_row list"
  transactions :: "processed_transaction list"
  eventRows :: "event_row list"
  accounts :: "account_row list"
  lastIndexedHeight :: "int option"

text \<open>The operations sent to the store, in the order they are issued.\<close>

datatype db_op =
    FindBlock int
  | UpsertBlock int
  | UpsertTransaction string
  | CreateEvent event_row
  | UpsertAccount string
  | UpsertIndexerState int
  | FindIndexerState

text \<open>
  The engine: the store, the log of operations issued, and the module-level flag
  \<open>stopRequested\<close> of sync.ts.
\<close>

record engine =
  db :: store
  dbLog :: "db_op list"
  stopRequested :: bool

text \<open>
  An effectful step returns its value or the error it throws, and the engine it leaves.
  \<open>bindS\<close> sequences two steps: an error ends the sequence.
\<close>

type_synonym 'a step = "engine \<Rightarrow> (exn + 'a) \<times> engine"

definition bindS :: "'a step \<Rightarrow> ('a \<Rightarrow> 'b step) \<Rightarrow> 'b step" where
  "bindS m f s = (case m s of (Inl e, s') \<Rightarrow> (Inl e, s') | (Inr v, s') \<Rightarrow> f v s')"

fun forS :: "('a \<Rightarrow> unit step) \<Rightarrow> 'a list \<Rightarrow> unit step" where
  "forS f [] s = (Inr (), s)"
| "forS f (x # xs) s = bindS (f x) (\<lambda>u. forS f xs) s"

text \<open>
  A store operation is logged, then fails (a thrown \<open>DbError\<close>, nothing written) when the
  environment says so, and otherwise changes the store.
\<close>

definition dbWrite :: "(db_op \<Rightarrow> bool) \<Rightarrow> db_op \<Rightarrow> (store \<Rightarrow> store) \<Rightarrow> unit step" where
  "dbWrite fails opn f s =
    (let s1 = s\<lparr>dbLog := dbLog s @ [opn]\<rparr>
     in if fails opn then (Inl DbError, s1) else (Inr (), s1\<lparr>db := f (db s1)\<rparr>))"

definition dbRead :: "(db_op \<Rightarrow> bool) \<Rightarrow> db_op \<Rightarrow> (store \<Rightarrow> 'a) \<Rightarrow> 'a step" where
  "dbRead fails opn f s =
    (let s1 = s\<lparr>dbLog := dbLog s @ [opn]\<rparr>
     in if fails opn then (Inl DbError, s1) else (Inr (f (db s1)), s1))"

text \<open>
  \<open>upsert({ where, update, create })\<close> on a table with a unique key: the row with the key is
  updated, or the created row is appended.
\<close>

definition upsertRow :: "('r \<Rightarrow> 'k) \<Rightarrow> 'k \<Rightarrow> ('r \<Rightarrow> 'r) \<Rightarrow> 'r \<Rightarrow> 'r list \<Rightarrow> 'r list" where
  "upsertRow keyOf k upd crt rows =
    (if list_ex (\<lambda>r. keyOf r = k) rows
     then map (\<lambda>r. if keyOf r = k then upd r else r) rows
     else rows @ [crt])"

text \<open>\<open>prisma.$transaction(fn)\<close>: when \<open>fn\<close> throws, every write it made is undone.\<close>

definition transaction :: "unit step \<Rightarrow> unit step" where
  "transaction fn s =
    (case fn s of
       (Inl e, s') \<Rightarrow> (Inl e, s'\<lparr>db := db s\<rparr>)
     | (Inr u, s') \<Rightarrow> (Inr u, s'))"

section \<open>Account updates (sync.ts, updateAccounts)\<close>

text \<open>\<open>key.toLowerCase()\<close>, on ASCII letters.\<close>

definition toLowerChar :: "char \<Rightarrow> char" where
  "toLowerChar c =
    (case map_of (zip ''ABCDEFGHIJKLMNOPQRSTUVWXYZ'' ''abcdefghijklmnopqrstuvwxyz'') c of
       Some l \<Rightarrow> l
     | None \<Rightarrow> c)"

definition toLowerCase :: "string \<Rightarrow> string" where
  "toLowerCase str = map toLowerChar str"

text \<open>\<open>addresses.add(value)\<close> on a \<open>Set\<close>, which keeps insertion order.\<close>

definition setAdd :: "string \<Rightarrow> string list \<Rightarrow> string list" where
  "setAdd v vs = (if v \<in> set vs then vs else vs @ [v])"

definition addressLike :: "string \<Rightarrow> json \<Rightarrow> bool" where
  "addressLike k v =
    (case v of
       JStr str \<Rightarrow> includesStr (toLowerCase k) ''address'' \<or> prefix ''twilight'' str
     | _ \<Rightarrow> False)"

definition collectEntry :: "string list \<Rightarrow> string \<times> json \<Rightarrow> string list" where
  "collectEntry addresses kv =
    (case kv of (k, v) \<Rightarrow>
       (if addressLike k v then (case v of JStr str \<Rightarrow> setAdd str addresses | _ \<Rightarrow> addresses)
        else addresses))"

definition collectAddresses :: "processed_transaction list \<Rightarrow> string list" where
  "collectAddresses txs =
    foldl (\<lambda>addresses txData.
      foldl (\<lambda>addresses msg. foldl collectEntry addresses (m_data msg)) addresses (t_messages txData))
      [] txs"

text \<open>\<open>try { ... } catch (error) { }\<close>: the error is dropped.\<close>

definition ignoreErrors :: "unit step \<Rightarrow> unit step" where
  "ignoreErrors m s = (case m s of (r, s') \<Rightarrow> (Inr (), s'))"

definition upsertAccount :: "(db_op \<Rightarrow> bool) \<Rightarrow> string \<Rightarrow> timestamp \<Rightarrow> unit step" where
  "upsertAccount fails address blockTime =
    dbWrite fails (UpsertAccount address)
      (\<lambda>d. d\<lparr>accounts :=
          upsertRow a_address address
            (\<lambda>r. r\<lparr>a_txCount := a_txCount r + 1, a_lastSeen := blockTime\<rparr>)
            \<lparr> a_address = address, a_txCount = 1, a_firstSeen = blockTime, a_lastSeen = blockTime \<rparr>
            (accounts d)\<rparr>)"

definition updateAccounts ::
  "(db_op \<Rightarrow> bool) \<Rightarrow> processed_transaction list \<Rightarrow> timestamp \<Rightarrow> unit step" where
  "updateAccounts fails txs blockTime =
    forS (\<lambda>address.
            if address = [] \<or> length address < 10 then (\<lambda>s. (Inr (), s))
            else ignoreErrors (upsertAccount fails address blockTime))
         (collectAddresses txs)"

section \<open>Block processing (sync.ts, processBlock)\<close>

text \<open>
  What the outside world answers during one call of \<open>processBlock\<close>: the header
  (\<open>getBlockByHeight\<close>), the transactions (\<open>getTxsByHeight\<close>, whose \<open>tx_responses\<close> may be
  absent), the header fetched again by the \<open>catch\<close> branch, and the store operations that
  fail. An error of the ledger client is \<open>HttpError status\<close> when a response came back and
  \<open>NetworkError\<close> when none did. Logging, the side tables filled by
  \<open>processCustomMessages\<close> after the commit (whose errors are caught) and the event emitter
  are outside the model: they write none of the core tables.
\<close>

record block_env =
  headerResp :: "exn + block_info"
  txsResp :: "exn + tx_response list option"
  headerRetry :: "exn + block_info"
  dbFails :: "db_op \<Rightarrow> bool"

definition findBlock :: "(db_op \<Rightarrow> bool) \<Rightarrow> int \<Rightarrow> block_row option step" where
  "findBlock fails h = dbRead fails (FindBlock h) (\<lambda>d. find (\<lambda>b. b_height b = h) (blocks d))"

text \<open>
  Linkage validation (lines 74 to 90). The result is \<open>True\<close> on a mismatch. The stored block
  is read only when \<open>height > 1\<close> and the header's \<open>last_block_id?.hash\<close> is truthy; the
  hashes are compared only when that block exists.
\<close>

definition linkageMismatch :: "(db_op \<Rightarrow> bool) \<Rightarrow> int \<Rightarrow> block_info \<Rightarrow> bool step" where
  "linkageMismatch fails height blockInfo =
    (if height > 1 then
       (case last_block_id_hash blockInfo of
          None \<Rightarrow> (\<lambda>s. (Inr False, s))
        | Some expectedPrevHash \<Rightarrow>
            if expectedPrevHash \<noteq> [] then
              bindS (findBlock fails (height - 1))
                (\<lambda>prevBlock s.
                   (Inr (case prevBlock of
                           None \<Rightarrow> False
                         | Some pb \<Rightarrow> b_hash pb \<noteq> expectedPrevHash), s))
            else (\<lambda>s. (Inr False, s)))
     else (\<lambda>s. (Inr False, s)))"

text \<open>The rows of the events of one transaction; a repeated attribute key keeps its last value.\<close>

definition eventsOf :: "tx_response \<Rightarrow> int \<Rightarrow> event_row list" where
  "eventsOf tx height =
    (case events tx of
       None \<Rightarrow> []
     | Some evs \<Rightarrow>
         map (\<lambda>ev. \<lparr> e_txHash = Some (txhash tx),
                      e_blockHeight = height,
                      e_type = ev_type ev,
                      e_attributes = foldl (\<lambda>acc kv. AList.update (fst kv) (snd kv) acc) []
                                        (ev_attributes ev) \<rparr>) evs)"

text \<open>
  The loop over \<open>txResponses\<close>: a response without \<open>txhash\<close> is skipped; the accumulator
  holds the transactions, the events and the two gas sums.
\<close>

fun processTxs ::
  "runtime \<Rightarrow> int \<Rightarrow> timestamp \<Rightarrow> tx_response list \<Rightarrow>
   processed_transaction list \<times> event_row list \<times> int \<times> int \<Rightarrow>
   exn + processed_transaction list \<times> event_row list \<times> int \<times> int" where
  "processTxs rt height blockTime [] acc = Inr acc"
| "processTxs rt height blockTime (tx # rest) (txs, evs, gasUsed, gasWanted) =
    (if txhash tx = [] then processTxs rt height blockTime rest (txs, evs, gasUsed, gasWanted)
     else bindE (processTransaction rt tx height blockTime) (\<lambda>processedTx.
            processTxs rt height blockTime rest
              (txs @ [processedTx], evs @ eventsOf tx height,
               gasUsed + t_gasUsed processedTx, gasWanted + t_gasWanted processedTx)))"

definition upsertBlock :: "(db_op \<Rightarrow> bool) \<Rightarrow> block_row \<Rightarrow> unit step" where
  "upsertBlock fails block =
    dbWrite fails (UpsertBlock (b_height block))
      (\<lambda>d. d\<lparr>blocks :=
          upsertRow b_height (b_height block)
            (\<lambda>r. r\<lparr>b_hash := b_hash block, b_timestamp := b_timestamp block,
                    b_proposer := b_proposer block, b_txCount := b_txCount block,
                    b_gasUsed := b_gasUsed block, b_gasWanted := b_gasWanted block\<rparr>)
            block (blocks d)\<rparr>)"

definition upsertTransaction :: "(db_op \<Rightarrow> bool) \<Rightarrow> processed_transaction \<Rightarrow> unit step" where
  "upsertTransaction fails txData =
    dbWrite fails (UpsertTransaction (t_hash txData))
      (\<lambda>d. d\<lparr>transactions :=
          upsertRow t_hash (t_hash txData) (\<lambda>r. txData) txData (transactions d)\<rparr>)"

definition createEvent :: "(db_op \<Rightarrow> bool) \<Rightarrow> event_row \<Rightarrow> unit step" where
  "createEvent fails ev =
    dbWrite fails (CreateEvent ev) (\<lambda>d. d\<lparr>eventRows := eventRows d @ [ev]\<rparr>)"

definition upsertIndexerState :: "(db_op \<Rightarrow> bool) \<Rightarrow> int \<Rightarrow> unit step" where
  "upsertIndexerState fails height =
    dbWrite fails (UpsertIndexerState height) (\<lambda>d. d\<lparr>lastIndexedHeight := Some height\<rparr>)"

text \<open>The transactional unit (lines 156 to 203).\<close>

definition commitBlock ::
  "(db_op \<Rightarrow> bool) \<Rightarrow> block_row \<Rightarrow> processed_transaction list \<Rightarrow> event_row list \<Rightarrow> unit step" where
  "commitBlock fails block txs evs =
    transaction
      (bindS (upsertBlock fails block) (\<lambda>u.
       bindS (forS (upsertTransaction fails) txs) (\<lambda>u.
       bindS (forS (createEvent fails) evs) (\<lambda>u.
       bindS (updateAccounts fails txs (b_timestamp block)) (\<lambda>u.
       upsertIndexerState fails (b_height block))))))"

definition proposerOf :: "block_info \<Rightarrow> string option" where
  "proposerOf blockInfo =
    (if proposer_address blockInfo \<noteq> [] then Some (proposer_address blockInfo) else None)"

text \<open>The \<open>try\<close> block of \<open>processBlock\<close>.\<close>

definition processBlockTry :: "runtime \<Rightarrow> block_env \<Rightarrow> int \<Rightarrow> unit step" where
  "processBlockTry rt env height s =
    (case headerResp env of
       Inl e \<Rightarrow> (Inl e, s)
     | Inr blockInfo \<Rightarrow>
         bindS (linkageMismatch (dbFails env) height blockInfo)
           (\<lambda>mismatch s1.
              if mismatch then (Inr (), s1\<lparr>stopRequested := True\<rparr>)
              else
                (let txResponses = (case txsResp env of
                                      Inl err \<Rightarrow> []
                                    | Inr None \<Rightarrow> []
                                    | Inr (Some rs) \<Rightarrow> rs)
                 in case processTxs rt height (header_time blockInfo) txResponses ([], [], 0, 0) of
                      Inl e \<Rightarrow> (Inl e, s1)
                    | Inr (txs, evs, gasUsed, gasWanted) \<Rightarrow>
                        commitBlock (dbFails env)
                          \<lparr> b_height = height,
                            b_hash = block_id_hash blockInfo,
                            b_timestamp = header_time blockInfo,
                            b_proposer = proposerOf blockInfo,
                            b_txCount = length txResponses,
                            b_gasUsed = Some gasUsed,
                            b_gasWanted = Some gasWanted \<rparr>
                          txs evs s1)) s)"

text \<open>
  The \<open>catch\<close> branch for status 400 (lines 225 to 255): the header is fetched again, the
  block is upserted with \<open>txCount\<close> 0 and \<open>setLastIndexedHeight\<close> is called; the two writes
  are separate statements, outside any transaction.
\<close>

definition emptyBlockFallback :: "block_env \<Rightarrow> int \<Rightarrow> unit step" where
  "emptyBlockFallback env height s =
    (case headerRetry env of
       Inl e \<Rightarrow> (Inl e, s)
     | Inr blockInfo \<Rightarrow>
         bindS (dbWrite (dbFails env) (UpsertBlock height)
                  (\<lambda>d. d\<lparr>blocks :=
                      upsertRow b_height height
                        (\<lambda>r. r\<lparr>b_hash := block_id_hash blockInfo,
                                b_timestamp := header_time blockInfo,
                                b_proposer := proposerOf blockInfo, b_txCount := 0\<rparr>)
                        \<lparr> b_height = height,
                          b_hash = block_id_hash blockInfo,
                          b_timestamp = header_time blockInfo,
                          b_proposer = proposerOf blockInfo,
                          b_txCount = 0,
                          b_gasUsed = None,
                          b_gasWanted = None \<rparr>
                        (blocks d)\<rparr>))
           (\<lambda>u. upsertIndexerState (dbFails env) height) s)"

definition processBlock :: "runtime \<Rightarrow> block_env \<Rightarrow> int \<Rightarrow> unit step" where
  "processBlock rt env height s =
    (case processBlockTry rt env height s of
       (Inl error, s') \<Rightarrow>
         if error = HttpError 400 then emptyBlockFallback env height s' else (Inl error, s')
     | (Inr u, s') \<Rightarrow> (Inr u, s'))"

section \<open>The sync loop (sync.ts, startSync)\<close>

record sync_config =
  startHeight :: int
  batchSize :: int

definition getLastIndexedHeight :: "sync_config \<Rightarrow> bool \<Rightarrow> int step" where
  "getLastIndexedHeight cfg readFails =
    dbRead (\<lambda>opn. readFails) FindIndexerState
      (\<lambda>d. case lastIndexedHeight d of Some v \<Rightarrow> v | None \<Rightarrow> startHeight cfg - 1)"

text \<open>
  The inner \<open>for\<close> loop: a block that throws ends the batch (after a sleep), and so does a
  stop request.
\<close>

function syncBatch :: "runtime \<Rightarrow> (int \<Rightarrow> block_env) \<Rightarrow> int \<Rightarrow> int \<Rightarrow> engine \<Rightarrow> engine" where
  "syncBatch rt envs height endHeight s =
    (if height \<le> endHeight \<and> \<not> stopRequested s then
       (case processBlock rt (envs height) height s of
          (Inl error, s') \<Rightarrow> s'
        | (Inr u, s') \<Rightarrow> syncBatch rt envs (height + 1) endHeight s')
     else s)"
  by pat_completeness auto
termination
  by (relation "measure (\<lambda>(rt, envs, height, endHeight, s). nat (endHeight + 1 - height))") auto

declare syncBatch.simps [simp del]

text \<open>
  The outer \<open>while (!stopRequested)\<close> loop runs until it is stopped. One element of the list
  is what the world answers during one iteration: whether reading the checkpoint fails, the
  latest height of the ledger, and the answers for each height of the batch. The list is a
  finite prefix of the run; when it is used up the loop is still running.
\<close>

record iter_env =
  stateReadFails :: bool
  latestResp :: "exn + int"
  blockEnvs :: "int \<Rightarrow> block_env"

datatype loop_status = LoopRunning | LoopExited | LoopThrew exn

fun syncLoop :: "runtime \<Rightarrow> sync_config \<Rightarrow> iter_env list \<Rightarrow> engine \<Rightarrow> loop_status \<times> engine" where
  "syncLoop rt cfg [] s = (if stopRequested s then LoopExited else LoopRunning, s)"
| "syncLoop rt cfg (ev # evs) s =
    (if stopRequested s then (LoopExited, s)
     else
       (case getLastIndexedHeight cfg (stateReadFails ev) s of
          (Inl e, s1) \<Rightarrow> (LoopThrew e, s1)
        | (Inr lastIndexed, s1) \<Rightarrow>
            (case latestResp ev of
               Inl e \<Rightarrow> (LoopThrew e, s1)
             | Inr latestHeight \<Rightarrow>
                 if lastIndexed \<ge> latestHeight then syncLoop rt cfg evs s1
                 else
                   (let startH = lastIndexed + 1;
                        endH = min (startH + batchSize cfg - 1) latestHeight
                    in syncLoop rt cfg evs (syncBatch rt (blockEnvs ev) startH endH s1)))))"

section \<open>The decode API (decoders/zkos.ts, decodeZkosTransactionFromApi)\<close>

text \<open>
  The request is made with the library axios, which is not part of the repository. As the
  call configures it (a timeout and a header; no \<open>responseType\<close>, the default
  \<open>validateStatus\<close> and \<open>transitional\<close> options), \<open>axios.post\<close> throws when no
  response arrives (transport error, timeout) and when the status of the response is outside
  200..299. Otherwise \<open>response.data\<close> is the parsed body when the body is JSON text, and
  the body itself, as a string, when it is not: a body that does not parse is handed back,
  not thrown. \<open>JSON.parse\<close> is a parameter (\<open>None\<close> when it throws); \<open>server\<close> is
  what the network and the decode service answer for a bytecode.
\<close>

record http_reply =
  reply_status :: nat
  reply_body :: string

definition axiosData :: "(string \<Rightarrow> json option) \<Rightarrow> string \<Rightarrow> json" where
  "axiosData jsonParse content =
    (if content = [] then JStr []
     else (case jsonParse content of Some v \<Rightarrow> v | None \<Rightarrow> JStr content))"

definition axiosPost ::
  "(string \<Rightarrow> json option) \<Rightarrow> (string \<Rightarrow> exn + http_reply) \<Rightarrow> string \<Rightarrow> exn + json" where
  "axiosPost jsonParse server bytecode =
    (case server bytecode of
       Inl e \<Rightarrow> Inl e
     | Inr reply \<Rightarrow>
         if 200 \<le> reply_status reply \<and> reply_status reply < 300
         then Inr (axiosData jsonParse (reply_body reply))
         else Inl (HttpError (reply_status reply)))"

text \<open>
  \<open>post\<close> is the outcome of \<open>axios.post\<close> for a bytecode: \<open>response.data\<close>, or the
  error thrown. The result is the value returned, \<open>None\<close> for \<open>null\<close>; the sum type leaves
  room for a thrown error.
\<close>

definition decodeZkosTransactionFromApi ::
  "(string \<Rightarrow> exn + json) \<Rightarrow> string \<Rightarrow> exn + json option" where
  "decodeZkosTransactionFromApi post bytecode =
    (case post bytecode of
       Inr responseData \<Rightarrow> if truthy responseData then Inr (Some responseData) else Inr None
     | Inl error \<Rightarrow> Inr None)"

section \<open>The enrichment worker (enrichment.ts)\<close>

definition BATCH_SIZE :: nat where
  "BATCH_SIZE = 20"

definition MAX_ATTEMPTS :: int where
  "MAX_ATTEMPTS = 5"

datatype decode_status = Pending | Ok | Failed

record zkos_transfer =
  z_id :: int
  zkTxId :: string
  txByteCode :: string
  decodedData :: "json option"
  inputs :: "json option"
  outputs :: "json option"
  programType :: json
  decodeStatus :: decode_status
  decodeAttempts :: int
  lastDecodeError :: "string option"

text \<open>
  The operations of the worker on the table, and what surrounds one cycle: the decode call
  (a parameter, so that a decoder that throws can be stated), the operations that fail and
  the message text of an error.
\<close>

datatype zk_op = FindPending | UpdateDecoded int | UpdateNull int | UpdateThrown int

record enrich_env =
  decode :: "string \<Rightarrow> exn + json option"
  zkFails :: "zk_op \<Rightarrow> bool"
  messageOf :: "exn \<Rightarrow> string"

text \<open>Property access \<open>v?.k\<close> on a decoded value: \<open>undefined\<close> unless \<open>v\<close> is an object with \<open>k\<close>.\<close>

definition getProp :: "json \<Rightarrow> string \<Rightarrow> json" where
  "getProp v k = (case v of JObj kvs \<Rightarrow> fld kvs k | _ \<Rightarrow> JUndefined)"

text \<open>
  \<open>update({ where: { id }, data })\<close>: throws when the operation fails or no row has the id;
  otherwise the row with the id gets the data.
\<close>

definition updateTransfer ::
  "(zk_op \<Rightarrow> bool) \<Rightarrow> zk_op \<Rightarrow> int \<Rightarrow> (zkos_transfer \<Rightarrow> zkos_transfer) \<Rightarrow>
   zkos_transfer list \<Rightarrow> exn + zkos_transfer list" where
  "updateTransfer fails opn i f tbl =
    (if fails opn \<or> \<not> list_ex (\<lambda>r. z_id r = i) tbl then Inl DbError
     else Inr (map (\<lambda>r. if z_id r = i then f r else r) tbl))"

definition statusAfter :: "int \<Rightarrow> decode_status" where
  "statusAfter attempts = (if attempts \<ge> MAX_ATTEMPTS then Failed else Pending)"

text \<open>The \<open>try\<close> block of the loop body (lines 52 to 83).\<close>

definition enrichTry :: "enrich_env \<Rightarrow> zkos_transfer \<Rightarrow> zkos_transfer list \<Rightarrow> exn + zkos_transfer list" where
  "enrichTry env rcd tbl =
    bindE (decode env (txByteCode rcd)) (\<lambda>decoded.
      case decoded of
        Some d \<Rightarrow>
          updateTransfer (zkFails env) (UpdateDecoded (z_id rcd)) (z_id rcd)
            (\<lambda>r. r\<lparr>decodedData := Some d,
                    inputs := Some (getProp d ''inputs''),
                    outputs := Some (getProp d ''outputs''),
                    programType := jsOr (getProp (getProp d ''summary'') ''program_type'')
                                     (jsOr (getProp d ''tx_type'') JNull),
                    decodeStatus := Ok,
                    decodeAttempts := decodeAttempts rcd + 1,
                    lastDecodeError := None\<rparr>) tbl
      | None \<Rightarrow>
          (let attempts = decodeAttempts rcd + 1
           in updateTransfer (zkFails env) (UpdateNull (z_id rcd)) (z_id rcd)
                (\<lambda>r. r\<lparr>decodeAttempts := attempts,
                        decodeStatus := statusAfter attempts,
                        lastDecodeError := Some ''Decode API returned null''\<rparr>) tbl))"

text \<open>The loop body with its \<open>catch\<close> (lines 84 to 98); an error of the update made there leaves the loop.\<close>

definition enrichRecord :: "enrich_env \<Rightarrow> zkos_transfer \<Rightarrow> zkos_transfer list \<Rightarrow> exn + zkos_transfer list" where
  "enrichRecord env rcd tbl =
    (case enrichTry env rcd tbl of
       Inr tbl' \<Rightarrow> Inr tbl'
     | Inl err \<Rightarrow>
         (let attempts = decodeAttempts rcd + 1
          in updateTransfer (zkFails env) (UpdateThrown (z_id rcd)) (z_id rcd)
               (\<lambda>r. r\<lparr>decodeAttempts := attempts,
                       decodeStatus := statusAfter attempts,
                       lastDecodeError := Some (messageOf env err)\<rparr>) tbl))"

text \<open>The \<open>where\<close> clause of \<open>findMany\<close>, and the query: oldest first, at most \<open>BATCH_SIZE\<close>.\<close>

definition pendingWhere :: "zkos_transfer \<Rightarrow> bool" where
  "pendingWhere r = (decodeStatus r = Pending \<and> decodeAttempts r < MAX_ATTEMPTS)"

definition findPending :: "zkos_transfer list \<Rightarrow> zkos_transfer list" where
  "findPending tbl = take BATCH_SIZE (sort_key z_id (filter pendingWhere tbl))"

fun enrichBatch :: "enrich_env \<Rightarrow> zkos_transfer list \<Rightarrow> zkos_transfer list \<Rightarrow> zkos_transfer list" where
  "enrichBatch env [] tbl = tbl"
| "enrichBatch env (rcd # rest) tbl =
    (case enrichRecord env rcd tbl of
       Inl err \<Rightarrow> tbl
     | Inr tbl' \<Rightarrow> enrichBatch env rest tbl')"

text \<open>
  One iteration of the \<open>while\<close> loop, with no stop request arriving during it: a failing
  query and an empty result both leave the table as it is (the worker sleeps).
\<close>

definition enrichCycle :: "enrich_env \<Rightarrow> zkos_transfer list \<Rightarrow> zkos_transfer list" where
  "enrichCycle env tbl =
    (if zkFails env FindPending then tbl else enrichBatch env (findPending tbl) tbl)"

text \<open>
  Successive cycles, each in its own environment. Between the cycles the table is changed by
  nothing else.
\<close>

fun enrichCycles :: "enrich_env list \<Rightarrow> zkos_transfer list \<Rightarrow> zkos_transfer list" where
  "enrichCycles [] tbl = tbl"
| "enrichCycles (env # envs) tbl = enrichCycles envs (enrichCycle env tbl)"

text \<open>Looking a row up by its id.\<close>

definition rowOf :: "zkos_transfer list \<Rightarrow> int \<Rightarrow> zkos_transfer option" where
  "rowOf tbl i = find (\<lambda>r. z_id r = i) tbl"

section \<open>Notions used by the properties\<close>

text \<open>The type identifiers that have a decoder of their own.\<close>

definition knownTypes :: "string list" where
  "knownTypes = map snd MESSAGE_TYPES"

text \<open>
  Sample inputs. \<open>demoRuntime\<close> agrees with \<open>BigInt\<close> on the three strings it is applied to
  below: \<open>BigInt('12')\<close> is 12, \<open>BigInt('0')\<close> is 0 and \<open>BigInt('abc')\<close> throws.
\<close>

definition demoRuntime :: runtime where
  "demoRuntime =
    \<lparr> BigInt = (\<lambda>v. if v = JStr ''12'' then Some 12 else if v = JStr ''0'' then Some 0 else None),
      parseInt = (\<lambda>v. NaN) \<rparr>"

definition demoMessages :: "obj list" where
  "demoMessages =
    [[(''@type'', JStr ''/cosmos.bank.v1beta1.MsgSend''), (''from_address'', JStr ''twilight1abc'')],
     [(''@type'', JStr CONFIRM_BTC_DEPOSIT), (''depositAmount'', JStr ''abc''), (''hash'', JStr ''00ff'')],
     [(''@type'', JStr SEEN_BTC_CHAIN_TIP), (''height'', JStr ''12'')]]"

text \<open>The worker as enrichment.ts wires it: its decode call is \<open>decodeZkosTransactionFromApi\<close>.\<close>

definition workerEnv :: "(string \<Rightarrow> exn + json) \<Rightarrow> (zk_op \<Rightarrow> bool) \<Rightarrow> (exn \<Rightarrow> string) \<Rightarrow> enrich_env" where
  "workerEnv post fails msgOf =
    \<lparr> decode = decodeZkosTransactionFromApi post, zkFails = fails, messageOf = msgOf \<rparr>"

text \<open>
  Sample answers of the decode service: status 200 with a body that is not JSON text.
  \<open>demoParse\<close> agrees with \<open>JSON.parse\<close> on the two bodies it is applied to:
  \<open>JSON.parse('null')\<close> is \<open>null\<close> and \<open>JSON.parse('not json')\<close> throws.
\<close>

definition demoParse :: "string \<Rightarrow> json option" where
  "demoParse content = (if content = ''null'' then Some JNull else None)"

definition textServer :: "string \<Rightarrow> exn + http_reply" where
  "textServer bytecode = Inr \<lparr> reply_status = 200, reply_body = ''not json'' \<rparr>"

text \<open>A transfer as the sync engine creates it: pending, no attempt made.\<close>

definition demoTransfer :: zkos_transfer where
  "demoTransfer =
    \<lparr> z_id = 7, zkTxId = ''zk-7'', txByteCode = ''0a0b'', decodedData = None, inputs = None,
      outputs = None, programType = JNull, decodeStatus = Pending, decodeAttempts = 0,
      lastDecodeError = None \<rparr>"

text \<open>
  The operations that write. \<open>frame s s'\<close>: from \<open>s\<close> to \<open>s'\<close> the stop flag is kept and
  only writes were issued.
\<close>

definition isWrite :: "db_op \<Rightarrow> bool" where
  "isWrite opn = (case opn of FindBlock h \<Rightarrow> False | FindIndexerState \<Rightarrow> False | _ \<Rightarrow> True)"

definition frame :: "engine \<Rightarrow> engine \<Rightarrow> bool" where
  "frame s s' =
    (stopRequested s' = stopRequested s \<and> (\<exists>ops. dbLog s' = dbLog s @ ops \<and> list_all isWrite ops))"

definition stepRel :: "(engine \<Rightarrow> engine \<Rightarrow> bool) \<Rightarrow> 'a step \<Rightarrow> bool" where
  "stepRel R m = (\<forall>s. R s (snd (m s)))"

text \<open>The operations issued between two engine states.\<close>

definition opsSince :: "engine \<Rightarrow> engine \<Rightarrow> db_op list" where
  "opsSince s s' = drop (length (dbLog s)) (dbLog s')"

text \<open>The rows of an account.\<close>

definition accountRows :: "engine \<Rightarrow> string \<Rightarrow> account_row list" where
  "accountRows s a = filter (\<lambda>r. a_address r = a) (accounts (db s))"

text \<open>An engine with an empty store, and sample transactions with address-like fields.\<close>

definition emptyStore :: store where
  "emptyStore = \<lparr> blocks = [], transactions = [], eventRows = [], accounts = [], lastIndexedHeight = None \<rparr>"

definition emptyEngine :: engine where
  "emptyEngine = \<lparr> db = emptyStore, dbLog = [], stopRequested = False \<rparr>"

definition demoTx :: processed_transaction where
  "demoTx =
    \<lparr> t_hash = ''AB12'', t_blockHeight = 2, t_blockTime = ''2024-01-01T00:00:00Z'',
      t_type = JStr ''/cosmos.bank.v1beta1.MsgSend'',
      t_messageTypes = [JStr ''/cosmos.bank.v1beta1.MsgSend''],
      t_messages =
        [\<lparr> m_type = ''/cosmos.bank.v1beta1.MsgSend'', m_typeName = Name ''MsgSend'', m_module = None,
           m_data = [(''fromAddress'', JStr ''short''),
                     (''to'', JStr ''twilight1qqqqqqqq''),
                     (''memo'', JStr ''hello world, hello'')] \<rparr>],
      t_fee = JNull, t_gasUsed = 0, t_gasWanted = 0, t_memo = None, t_status = ''success'',
      t_errorLog = None, t_signers = [] \<rparr>"

text \<open>The writes of the transactional unit that can make it fail.\<close>

definition commitOk ::
  "(db_op \<Rightarrow> bool) \<Rightarrow> int \<Rightarrow> processed_transaction list \<Rightarrow> event_row list \<Rightarrow> bool" where
  "commitOk fails h txs evs =
    (\<not> fails (UpsertBlock h) \<and>
     list_all (\<lambda>tx. \<not> fails (UpsertTransaction (t_hash tx))) txs \<and>
     list_all (\<lambda>ev. \<not> fails (CreateEvent ev)) evs \<and>
     \<not> fails (UpsertIndexerState h))"

text \<open>The heights of the stored blocks, and the transaction rows after the upserts of a block.\<close>

definition blockHeights :: "engine \<Rightarrow> int list" where
  "blockHeights s = map b_height (blocks (db s))"

definition upsertTxs :: "processed_transaction list \<Rightarrow> processed_transaction list \<Rightarrow> processed_transaction list" where
  "upsertTxs txs rows = fold (\<lambda>tx. upsertRow t_hash (t_hash tx) (\<lambda>r. tx) tx) txs rows"

text \<open>
  The hash that header \<open>h\<close> expects of block \<open>h - 1\<close> (empty when the header has none), and the
  guard under which \<open>processBlock\<close> reads the stored block \<open>h - 1\<close>.
\<close>

definition expectedPrevHash :: "block_info \<Rightarrow> string" where
  "expectedPrevHash blockInfo = (case last_block_id_hash blockInfo of None \<Rightarrow> [] | Some e \<Rightarrow> e)"

definition linkageGuard :: "int \<Rightarrow> block_info \<Rightarrow> bool" where
  "linkageGuard h blockInfo = (1 < h \<and> expectedPrevHash blockInfo \<noteq> [])"

definition storedBlock :: "engine \<Rightarrow> int \<Rightarrow> block_row option" where
  "storedBlock s h = find (\<lambda>b. b_height b = h) (blocks (db s))"

text \<open>The block heights after an upsert at \<open>h\<close>.\<close>

definition heightsAfter :: "int \<Rightarrow> engine \<Rightarrow> int list" where
  "heightsAfter h s = (if h \<in> set (blockHeights s) then blockHeights s else blockHeights s @ [h])"

text \<open>
  The checkpoint as the loop reads it, and the two forms of the checkpoint invariant:
  \<open>ckptExact\<close>, the checkpoint is \<open>h\<close> and the stored heights are exactly \<open>first .. h\<close>;
  \<open>ckptInv\<close>, the same except that the block right above the checkpoint may already be
  stored.
\<close>

definition lastIndexedOf :: "sync_config \<Rightarrow> engine \<Rightarrow> int" where
  "lastIndexedOf cfg s = (case lastIndexedHeight (db s) of Some v \<Rightarrow> v | None \<Rightarrow> startHeight cfg - 1)"

definition ckptExact :: "int \<Rightarrow> engine \<Rightarrow> int \<Rightarrow> bool" where
  "ckptExact first s h = (lastIndexedHeight (db s) = Some h \<and> set (blockHeights s) = {first .. h})"

definition ckptInv :: "int \<Rightarrow> sync_config \<Rightarrow> engine \<Rightarrow> bool" where
  "ckptInv first cfg s =
    (first \<le> lastIndexedOf cfg s + 1 \<and>
     set (blockHeights s) \<subseteq> {first .. lastIndexedOf cfg s + 1} \<and>
     {first .. lastIndexedOf cfg s} \<subseteq> set (blockHeights s))"

text \<open>
  Sample inputs: an engine that has ingested block 1, and answers of the ledger for
  height 2.
\<close>

definition engineAt1 :: engine where
  "engineAt1 =
    \<lparr> db = \<lparr> blocks = [\<lparr> b_height = 1, b_hash = ''AA'', b_timestamp = ''2024-01-01T00:00:00Z'',
                          b_proposer = None, b_txCount = 0, b_gasUsed = Some 0, b_gasWanted = Some 0 \<rparr>],
             transactions = [], eventRows = [], accounts = [], lastIndexedHeight = Some 1 \<rparr>,
      dbLog = [], stopRequested = False \<rparr>"

definition header2 :: "string option \<Rightarrow> block_info" where
  "header2 prev =
    \<lparr> block_id_hash = ''CC'', header_time = ''2024-01-01T00:00:05Z'', proposer_address = ''val1'',
      last_block_id_hash = prev \<rparr>"

definition env2 :: "string option \<Rightarrow> block_env" where
  "env2 prev =
    \<lparr> headerResp = Inr (header2 prev), txsResp = Inr (Some []), headerRetry = Inr (header2 prev),
      dbFails = (\<lambda>opn. False) \<rparr>"

text \<open>
  The transactions \<open>processBlock\<close> works on, the block row it builds, and the condition
  under which the linkage validation reports a mismatch.
\<close>

definition txResponsesOf :: "block_env \<Rightarrow> tx_response list" where
  "txResponsesOf env = (case txsResp env of Inl err \<Rightarrow> [] | Inr None \<Rightarrow> [] | Inr (Some rs) \<Rightarrow> rs)"

definition blockRowOf :: "block_env \<Rightarrow> int \<Rightarrow> block_info \<Rightarrow> int \<Rightarrow> int \<Rightarrow> block_row" where
  "blockRowOf env h blockInfo gasUsed gasWanted =
    \<lparr> b_height = h, b_hash = block_id_hash blockInfo, b_timestamp = header_time blockInfo,
      b_proposer = proposerOf blockInfo, b_txCount = length (txResponsesOf env),
      b_gasUsed = Some gasUsed, b_gasWanted = Some gasWanted \<rparr>"

definition reorgDetected :: "(db_op \<Rightarrow> bool) \<Rightarrow> int \<Rightarrow> block_info \<Rightarrow> engine \<Rightarrow> bool" where
  "reorgDetected fails h blockInfo s =
    (linkageGuard h blockInfo \<and> \<not> fails (FindBlock (h - 1)) \<and>
     (case storedBlock s (h - 1) of
        None \<Rightarrow> False
      | Some pb \<Rightarrow> b_hash pb \<noteq> expectedPrevHash blockInfo))"

definition afterLinkage :: "int \<Rightarrow> block_info \<Rightarrow> engine \<Rightarrow> engine" where
  "afterLinkage h blockInfo s =
    (if linkageGuard h blockInfo then s\<lparr>dbLog := dbLog s @ [FindBlock (h - 1)]\<rparr> else s)"

text \<open>
  Answers of the ledger for height 2 where the first header request is refused with status
  400, the second succeeds, and the store refuses the checkpoint write.
\<close>

definition envFallback :: block_env where
  "envFallback =
    \<lparr> headerResp = Inl (HttpError 400), txsResp = Inr None,
      headerRetry = Inr (header2 (Some ''AA'')),
      dbFails = (\<lambda>opn. opn = UpsertIndexerState 2) \<rparr>"

text \<open>
  Answers of the ledger for height 2 where the first header request is refused with status
  400 and the second returns a header that expects \<open>BB\<close> as the hash of block 1; the store
  refuses nothing.
\<close>

definition envFallbackReorg :: block_env where
  "envFallbackReorg =
    \<lparr> headerResp = Inl (HttpError 400), txsResp = Inr None,
      headerRetry = Inr (header2 (Some ''BB'')),
      dbFails = (\<lambda>opn. False) \<rparr>"

text \<open>The default configuration, and answers of the ledger for height 1 of a fresh chain.\<close>

definition cfg1 :: sync_config where
  "cfg1 = \<lparr> startHeight = 1, batchSize = 10 \<rparr>"

definition env1 :: block_env where
  "env1 =
    \<lparr> headerResp = Inr \<lparr> block_id_hash = ''AA'', header_time = ''2024-01-01T00:00:00Z'',
                          proposer_address = ''val1'', last_block_id_hash = Some [] \<rparr>,
      txsResp = Inr (Some []),
      headerRetry = Inl NetworkError,
      dbFails = (\<lambda>opn. False) \<rparr>"







text \<open>
  What one pass of the loop body writes into the row \<open>r\<close> of the record \<open>rcd\<close> it fetched,
  when the store accepts the update; \<open>noStoreFailure\<close>: the store refuses nothing;
  \<open>decodeFails\<close>: the decode call returns \<open>null\<close> or throws.
\<close>

definition attemptOn :: "enrich_env \<Rightarrow> zkos_transfer \<Rightarrow> zkos_transfer \<Rightarrow> zkos_transfer" where
  "attemptOn env rcd r =
    (case decode env (txByteCode rcd) of
       Inr (Some d) \<Rightarrow>
         r\<lparr>decodedData := Some d,
           inputs := Some (getProp d ''inputs''),
           outputs := Some (getProp d ''outputs''),
           programType := jsOr (getProp (getProp d ''summary'') ''program_type'')
                            (jsOr (getProp d ''tx_type'') JNull),
           decodeStatus := Ok,
           decodeAttempts := decodeAttempts rcd + 1,
           lastDecodeError := None\<rparr>
     | Inr None \<Rightarrow>
         r\<lparr>decodeAttempts := decodeAttempts rcd + 1,
           decodeStatus := statusAfter (decodeAttempts rcd + 1),
           lastDecodeError := Some ''Decode API returned null''\<rparr>
     | Inl err \<Rightarrow>
         r\<lparr>decodeAttempts := decodeAttempts rcd + 1,
           decodeStatus := statusAfter (decodeAttempts rcd + 1),
           lastDecodeError := Some (messageOf env err)\<rparr>)"

definition noStoreFailure :: "enrich_env \<Rightarrow> bool" where
  "noStoreFailure env = (\<forall>opn. \<not> zkFails env opn)"

definition decodeFails :: "enrich_env \<Rightarrow> string \<Rightarrow> bool" where
  "decodeFails env bytecode = (case decode env bytecode of Inr (Some d) \<Rightarrow> False | _ \<Rightarrow> True)"

text \<open>A decode API that answers nothing, and one that decodes.\<close>

definition failEnv :: enrich_env where
  "failEnv = \<lparr> decode = (\<lambda>bc. Inr None), zkFails = (\<lambda>opn. False), messageOf = (\<lambda>e. ''error'') \<rparr>"

definition okEnv :: enrich_env where
  "okEnv =
    \<lparr> decode = (\<lambda>bc. Inr (Some (JObj [(''tx_type'', JStr ''Transfer'')]))),
      zkFails = (\<lambda>opn. False), messageOf = (\<lambda>e. ''error'') \<rparr>"

section \<open>Event publishing (index.ts, sync.ts)\<close>









text \<open>
  Measures on the table, for a record with id \<open>i\<close>. \<open>olderPending\<close>: the number of records
  that the query of the worker finds and that have a smaller id, which is the position of
  the record in the ordered result. \<open>remaining\<close>: the attempts a record can still be given,
  none once the query no longer finds it. \<open>backlog\<close>: the attempts that can still be given
  to the records with an id up to \<open>i\<close>; it is at most \<open>MAX_ATTEMPTS\<close> times their number
  when no attempt counter is negative.
\<close>

definition olderPending :: "zkos_transfer list \<Rightarrow> int \<Rightarrow> nat" where
  "olderPending tbl i = length (filter (\<lambda>r. pendingWhere r \<and> z_id r < i) tbl)"

definition remaining :: "zkos_transfer \<Rightarrow> nat" where
  "remaining r = (if pendingWhere r then nat (MAX_ATTEMPTS - decodeAttempts r) else 0)"

definition backlog :: "zkos_transfer list \<Rightarrow> int \<Rightarrow> nat" where
  "backlog tbl i = sum_list (map remaining (filter (\<lambda>r. z_id r \<le> i) tbl))"

text \<open>\<open>decodeOk\<close>: the decode call returns a decoded value.\<close>

definition decodeOk :: "enrich_env \<Rightarrow> string \<Rightarrow> bool" where
  "decodeOk env bytecode = (case decode env bytecode of Inr (Some d) \<Rightarrow> True | _ \<Rightarrow> False)"

text \<open>A table of 22 pending transfers with the ids 1 to 22, more than one batch.\<close>

definition demoRow :: "int \<Rightarrow> zkos_transfer" where
  "demoRow k = demoTransfer\<lparr>z_id := k\<rparr>"

definition demoTable :: "zkos_transfer list" where
  "demoTable =
    map demoRow [1, 2, 3, 4, 5, 6, 7, 8, 9, 10, 11, 12, 13, 14, 15, 16, 17, 18, 19, 20, 21, 22]"

section \<open>Verified properties\<close>

subsection \<open>Decoder fallback\<close>

lemma decodeData_unknown:
  assumes "t \<notin> set knownTypes"
  shows "decodeData rt t msg = Inr (passthrough msg)"
  using assms
  by (simp add: knownTypes_def MESSAGE_TYPES_def decodeData_def decodeBridge_def decodeForks_def
      decodeVolt_def decodeZkos_def)

lemma decodeMessage_passthrough:
  assumes "msgTypeOf msg = Some t"
    and "t \<notin> set knownTypes \<or> (\<exists>e. decodeData rt t msg = Inl e)"
  shows "decodeMessage rt msg =
     Inr \<lparr> dtype = t, typeName = typeNameOf t, module = getModuleFromType t,
           data = passthrough msg, raw = msg \<rparr>"
  using assms decodeData_unknown[of t rt msg]
  by (auto simp: decodeMessage_def)

lemma mapE_total:
  assumes "\<forall>x \<in> set xs. \<exists>y. f x = Inr y"
  shows "\<exists>ys. mapE f xs = Inr ys \<and> length ys = length xs \<and> (\<forall>i < length xs. f (xs ! i) = Inr (ys ! i))"
  using assms
proof (induction xs)
  case Nil
  then show ?case by simp
next
  case (Cons x xs)
  then obtain y where y: "f x = Inr y" by auto
  from Cons obtain ys where ys: "mapE f xs = Inr ys" "length ys = length xs"
    "\<forall>i < length xs. f (xs ! i) = Inr (ys ! i)" by auto
  show ?case
    using y ys by (auto simp: bindE_def nth_Cons split: nat.splits)
qed

text \<open>
  C6. A message whose type identifier has no decoder of its own, and a message whose decoder
  throws, is decoded to the passthrough data (its fields without \<open>@type\<close>) and no error
  reaches the caller; every message of the transaction gets its decoded entry.
\<close>

theorem decode_fallback:
  assumes typed: "\<forall>m \<in> set msgs. msgTypeOf m \<noteq> None"
  shows "\<exists>ds. decodeMessages rt msgs = Inr ds \<and> length ds = length msgs \<and>
    (\<forall>i < length msgs. \<forall>t.
       msgTypeOf (msgs ! i) = Some t \<longrightarrow>
       (t \<notin> set knownTypes \<or> (\<exists>e. decodeData rt t (msgs ! i) = Inl e)) \<longrightarrow>
         decodeMessage rt (msgs ! i) =
           Inr \<lparr> dtype = t, typeName = typeNameOf t, module = getModuleFromType t,
                 data = passthrough (msgs ! i), raw = msgs ! i \<rparr> \<and>
         m_data (ds ! i) = serializeDecodedData (passthrough (msgs ! i)))"
proof -
  let ?f = "\<lambda>msg. bindE (decodeMessage rt msg) (\<lambda>decoded.
            Inr \<lparr> m_type = dtype decoded, m_typeName = typeName decoded,
                  m_module = module decoded,
                  m_data = serializeDecodedData (data decoded) \<rparr>)"
  have "\<forall>m \<in> set msgs. \<exists>y. ?f m = Inr y"
    using typed by (auto simp: decodeMessage_def bindE_def)
  from mapE_total[OF this] obtain ds where ds: "mapE ?f msgs = Inr ds" "length ds = length msgs"
    "\<forall>i < length msgs. ?f (msgs ! i) = Inr (ds ! i)" by blast
  have "m_data (ds ! i) = serializeDecodedData (passthrough (msgs ! i))"
    if "i < length msgs" "msgTypeOf (msgs ! i) = Some t"
      "t \<notin> set knownTypes \<or> (\<exists>e. decodeData rt t (msgs ! i) = Inl e)" for i t
  proof -
    have "?f (msgs ! i) = Inr (ds ! i)" using ds(3) that(1) by blast
    then have "ds ! i = \<lparr> m_type = t, m_typeName = typeNameOf t, m_module = getModuleFromType t,
        m_data = serializeDecodedData (passthrough (msgs ! i)) \<rparr>"
      using decodeMessage_passthrough[OF that(2) that(3)] by (simp add: bindE_def)
    then show ?thesis by simp
  qed
  then show ?thesis
    using ds(1,2) decodeMessage_passthrough unfolding decodeMessages_def by blast
qed

text \<open>
  An unknown type, a deposit confirmation whose amount is not a number, and a chain tip.
\<close>

theorem decode_fallback_witness:
  "list_all (\<lambda>m. msgTypeOf m \<noteq> None) demoMessages \<and>
   decodeData demoRuntime CONFIRM_BTC_DEPOSIT (demoMessages ! 1) = Inl SyntaxError \<and>
   (\<exists>ds. decodeMessages demoRuntime demoMessages = Inr ds \<and> length ds = 3 \<and>
      m_data (ds ! 0) = [(''from_address'', JStr ''twilight1abc'')] \<and>
      m_data (ds ! 1) = [(''depositAmount'', JStr ''abc''), (''hash'', JStr ''00ff'')])"
proof -
  have typed: "\<forall>m \<in> set demoMessages. msgTypeOf m \<noteq> None"
    by (simp add: demoMessages_def msgTypeOf_def fld_def)
  have throws: "decodeData demoRuntime CONFIRM_BTC_DEPOSIT (demoMessages ! 1) = Inl SyntaxError"
    by (simp add: demoMessages_def decodeData_def decodeBridge_def isBridgeMessage_def
        CONFIRM_BTC_DEPOSIT_def decodeConfirmBtcDeposit_def objE_def cp_def big_def bigIntE_def
        bindE_def fld_def jsOr_def demoRuntime_def)
  have unknown: "''/cosmos.bank.v1beta1.MsgSend'' \<notin> set knownTypes"
    by (simp add: knownTypes_def MESSAGE_TYPES_def CONFIRM_BTC_DEPOSIT_def REGISTER_BTC_DEPOSIT_ADDRESS_def REGISTER_RESERVE_ADDRESS_def
  BOOTSTRAP_FRAGMENT_def WITHDRAW_BTC_REQUEST_def SWEEP_PROPOSAL_def WITHDRAW_TX_SIGNED_def
  WITHDRAW_TX_FINAL_def CONFIRM_BTC_WITHDRAW_def SIGN_REFUND_def BROADCAST_TX_SWEEP_def SIGN_SWEEP_def
  PROPOSE_REFUND_HASH_def UNSIGNED_TX_SWEEP_def UNSIGNED_TX_REFUND_def BROADCAST_TX_REFUND_def
  PROPOSE_SWEEP_ADDRESS_def SET_DELEGATE_ADDRESSES_def SEEN_BTC_CHAIN_TIP_def SIGNER_APPLICATION_def
  ACCEPT_SIGNERS_def TRANSFER_TX_def MINT_BURN_TRADING_BTC_def)
  from decode_fallback[OF typed, of demoRuntime] obtain ds where
    ds: "decodeMessages demoRuntime demoMessages = Inr ds" "length ds = length demoMessages"
    and fb: "\<And>i t. i < length demoMessages \<Longrightarrow> msgTypeOf (demoMessages ! i) = Some t \<Longrightarrow>
       (t \<notin> set knownTypes \<or> (\<exists>e. decodeData demoRuntime t (demoMessages ! i) = Inl e)) \<Longrightarrow>
         m_data (ds ! i) = serializeDecodedData (passthrough (demoMessages ! i))"
    by blast
  have d0: "m_data (ds ! 0) = serializeDecodedData (passthrough (demoMessages ! 0))"
    using fb[of 0 "''/cosmos.bank.v1beta1.MsgSend''"] unknown
    by (simp add: demoMessages_def msgTypeOf_def fld_def)
  have d1: "m_data (ds ! 1) = serializeDecodedData (passthrough (demoMessages ! 1))"
    using fb[of 1 CONFIRM_BTC_DEPOSIT] throws
    by (simp add: demoMessages_def msgTypeOf_def fld_def)
  show ?thesis
    using typed throws ds d0 d1 by (simp add: demoMessages_def passthrough_def list_all_iff)
qed

subsection \<open>The decode API\<close>

lemma decodeApi_total: "\<exists>r. decodeZkosTransactionFromApi post bc = Inr r"
  by (simp add: decodeZkosTransactionFromApi_def split: sum.splits)

lemma updateTransfer_error: "updateTransfer fails opn i f tbl = Inl err \<Longrightarrow> err = DbError"
  by (simp add: updateTransfer_def split: if_splits)

text \<open>
  What holds for every outcome of the request: \<open>decodeZkosTransactionFromApi\<close> always
  returns; when \<open>axios.post\<close> throws (transport error, timeout, status outside 200..299)
  it returns \<open>null\<close>; in the worker such a failure takes the null-result branch, and an
  error that reaches the \<open>catch\<close> of the loop body comes from the store update, never
  from the decode call.
\<close>

lemma decode_api_never_throws:
  "(\<exists>r. decodeZkosTransactionFromApi post bc = Inr r) \<and>
   (post bc = Inl e \<longrightarrow> decodeZkosTransactionFromApi post bc = Inr None) \<and>
   (post (txByteCode rcd) = Inl e \<longrightarrow>
      enrichTry (workerEnv post fails msgOf) rcd tbl =
        updateTransfer fails (UpdateNull (z_id rcd)) (z_id rcd)
          (\<lambda>r. r\<lparr>decodeAttempts := decodeAttempts rcd + 1,
                  decodeStatus := statusAfter (decodeAttempts rcd + 1),
                  lastDecodeError := Some ''Decode API returned null''\<rparr>) tbl) \<and>
   (enrichTry (workerEnv post fails msgOf) rcd tbl = Inl err \<longrightarrow>
      err = DbError \<and>
      (fails (UpdateDecoded (z_id rcd)) \<or> fails (UpdateNull (z_id rcd)) \<or>
       \<not> list_ex (\<lambda>r. z_id r = z_id rcd) tbl))"
proof -
  have a: "\<exists>r. decodeZkosTransactionFromApi post bc = Inr r"
    by (rule decodeApi_total)
  have b: "post bc = Inl e \<longrightarrow> decodeZkosTransactionFromApi post bc = Inr None"
    by (simp add: decodeZkosTransactionFromApi_def)
  have c: "post (txByteCode rcd) = Inl e \<longrightarrow>
      enrichTry (workerEnv post fails msgOf) rcd tbl =
        updateTransfer fails (UpdateNull (z_id rcd)) (z_id rcd)
          (\<lambda>r. r\<lparr>decodeAttempts := decodeAttempts rcd + 1,
                  decodeStatus := statusAfter (decodeAttempts rcd + 1),
                  lastDecodeError := Some ''Decode API returned null''\<rparr>) tbl"
    by (simp add: enrichTry_def workerEnv_def decodeZkosTransactionFromApi_def bindE_def Let_def)
  have d: "enrichTry (workerEnv post fails msgOf) rcd tbl = Inl err \<longrightarrow>
      err = DbError \<and>
      (fails (UpdateDecoded (z_id rcd)) \<or> fails (UpdateNull (z_id rcd)) \<or>
       \<not> list_ex (\<lambda>r. z_id r = z_id rcd) tbl)"
    by (auto simp: enrichTry_def workerEnv_def decodeZkosTransactionFromApi_def bindE_def
        updateTransfer_def Let_def split: sum.splits option.splits if_splits)
  show ?thesis using a b c d by blast
qed

text \<open>A request that fails with a network error.\<close>

lemma decode_api_never_throws_example:
  "decodeZkosTransactionFromApi (\<lambda>bc. Inl NetworkError) ''0a0b'' = Inr None \<and>
   enrichRecord (workerEnv (\<lambda>bc. Inl NetworkError) (\<lambda>opn. False) (\<lambda>e. ''thrown'')) demoTransfer [demoTransfer] =
     Inr [demoTransfer\<lparr>decodeAttempts := 1, decodeStatus := Pending,
                       lastDecodeError := Some ''Decode API returned null''\<rparr>] \<and>
   enrichTry (workerEnv (\<lambda>bc. Inl NetworkError) (\<lambda>opn. opn = UpdateNull 7) (\<lambda>e. ''thrown'')) demoTransfer [demoTransfer] =
     Inl DbError"
proof -
  let ?post = "\<lambda>bc::string. (Inl NetworkError :: exn + json)"
  have p: "?post (txByteCode demoTransfer) = Inl NetworkError" by simp
  note t = decode_api_never_throws[of ?post "''0a0b''" NetworkError demoTransfer _ "\<lambda>e. ''thrown''" "[demoTransfer]"]
  have 1: "decodeZkosTransactionFromApi ?post ''0a0b'' = Inr None"
    using t by simp
  have 2: "enrichTry (workerEnv ?post (\<lambda>opn. False) (\<lambda>e. ''thrown'')) demoTransfer [demoTransfer] =
      Inr [demoTransfer\<lparr>decodeAttempts := 1, decodeStatus := Pending,
                       lastDecodeError := Some ''Decode API returned null''\<rparr>]"
    using t[of "\<lambda>opn. False"] p
    by (simp add: updateTransfer_def demoTransfer_def statusAfter_def MAX_ATTEMPTS_def)
  have 3: "enrichTry (workerEnv ?post (\<lambda>opn. opn = UpdateNull 7) (\<lambda>e. ''thrown'')) demoTransfer [demoTransfer] =
     Inl DbError"
    using t[of "\<lambda>opn. opn = UpdateNull 7"] p
    by (simp add: updateTransfer_def demoTransfer_def)
  show ?thesis using 1 2 3 by (simp add: enrichRecord_def)
qed

text \<open>
  C10 at a response that does not parse: the decode service answers with status 200 and the
  body \<open>not json\<close>. \<open>axios.post\<close> hands the body back as text, so
  \<open>decodeZkosTransactionFromApi\<close> returns that text, not \<open>null\<close>, and the worker takes
  the success branch: the record is marked \<open>ok\<close> with the text as its decoded data.
\<close>

theorem decode_api_unparsed_body:
  "axiosPost demoParse textServer ''0a0b'' = Inr (JStr ''not json'') \<and>
   decodeZkosTransactionFromApi (axiosPost demoParse textServer) ''0a0b'' =
     Inr (Some (JStr ''not json'')) \<and>
   enrichRecord (workerEnv (axiosPost demoParse textServer) (\<lambda>opn. False) (\<lambda>e. ''thrown''))
       demoTransfer [demoTransfer] =
     Inr [demoTransfer\<lparr>decodedData := Some (JStr ''not json''), inputs := Some JUndefined,
                       outputs := Some JUndefined, programType := JNull, decodeStatus := Ok,
                       decodeAttempts := 1, lastDecodeError := None\<rparr>]"
  by (simp add: axiosPost_def axiosData_def demoParse_def textServer_def
      decodeZkosTransactionFromApi_def enrichRecord_def enrichTry_def workerEnv_def bindE_def
      updateTransfer_def demoTransfer_def getProp_def jsOr_def)

subsection \<open>Steps\<close>

lemma bindS_Inr: "m s = (Inr v, s1) \<Longrightarrow> bindS m f s = f v s1"
  by (simp add: bindS_def)

lemma bindS_Inl: "m s = (Inl e, s1) \<Longrightarrow> bindS m f s = (Inl e, s1)"
  by (simp add: bindS_def)

lemma dbWrite_eq:
  "dbWrite fails opn f s =
    (if fails opn then (Inl DbError, s\<lparr>dbLog := dbLog s @ [opn]\<rparr>)
     else (Inr (), s\<lparr>dbLog := dbLog s @ [opn], db := f (db s)\<rparr>))"
  by (simp add: dbWrite_def Let_def)

lemma dbRead_eq:
  "dbRead fails opn f s =
    (if fails opn then (Inl DbError, s\<lparr>dbLog := dbLog s @ [opn]\<rparr>)
     else (Inr (f (db s)), s\<lparr>dbLog := dbLog s @ [opn]\<rparr>))"
  by (simp add: dbRead_def Let_def)

lemma frame_refl: "frame s s"
  by (simp add: frame_def)

lemma frame_trans: "frame s s1 \<Longrightarrow> frame s1 s2 \<Longrightarrow> frame s s2"
  by (auto simp: frame_def)

lemma stepRel_bindS:
  assumes "\<And>a b c. R a b \<Longrightarrow> R b c \<Longrightarrow> R a c" "stepRel R m" "\<And>v. stepRel R (f v)"
  shows "stepRel R (bindS m f)"
  unfolding stepRel_def
proof
  fix s
  obtain r s1 where ms: "m s = (r, s1)" by (cases "m s")
  have 1: "R s s1" using assms(2) ms unfolding stepRel_def by (metis snd_conv)
  show "R s (snd (bindS m f s))"
  proof (cases r)
    case (Inl e)
    then show ?thesis using ms 1 by (simp add: bindS_def)
  next
    case (Inr v)
    have "R s1 (snd (f v s1))" using assms(3) unfolding stepRel_def by blast
    then show ?thesis using ms 1 Inr assms(1) by (auto simp: bindS_def)
  qed
qed

lemma stepRel_forS:
  assumes "\<And>a. R a a" "\<And>a b c. R a b \<Longrightarrow> R b c \<Longrightarrow> R a c" "\<And>x. stepRel R (f x)"
  shows "stepRel R (forS f xs)"
proof (induction xs)
  case Nil
  then show ?case using assms(1) by (simp add: stepRel_def)
next
  case (Cons x xs)
  have "forS f (x # xs) = bindS (f x) (\<lambda>u. forS f xs)" by (rule ext) simp
  moreover have "stepRel R (bindS (f x) (\<lambda>u. forS f xs))"
    by (rule stepRel_bindS) (use assms(2,3) Cons in blast)+
  ultimately show ?case by simp
qed


subsection \<open>Upserts\<close>

lemma upsertRow_keys:
  assumes "\<And>r. keyOf r = k \<Longrightarrow> keyOf (upd r) = k" "keyOf crt = k"
  shows "map keyOf (upsertRow keyOf k upd crt rows) =
    (if k \<in> set (map keyOf rows) then map keyOf rows else map keyOf rows @ [k])"
proof -
  have "map keyOf (map (\<lambda>r. if keyOf r = k then upd r else r) rows) = map keyOf rows"
    using assms(1) by (induction rows) auto
  moreover have "list_ex (\<lambda>r. keyOf r = k) rows \<longleftrightarrow> k \<in> set (map keyOf rows)"
    by (auto simp: list_ex_iff)
  ultimately show ?thesis
    using assms(2) by (simp add: upsertRow_def)
qed

lemma upsertRow_other:
  assumes "k' \<noteq> k" "\<And>r. keyOf r = k \<Longrightarrow> keyOf (upd r) = k" "keyOf crt = k"
  shows "filter (\<lambda>r. keyOf r = k') (upsertRow keyOf k upd crt rows) = filter (\<lambda>r. keyOf r = k') rows"
proof -
  have "filter (\<lambda>r. keyOf r = k') (map (\<lambda>r. if keyOf r = k then upd r else r) rows) =
      filter (\<lambda>r. keyOf r = k') rows"
    using assms(1,2) by (induction rows) auto
  then show ?thesis
    using assms(1,3) by (auto simp: upsertRow_def)
qed

subsection \<open>Account updates\<close>

lemma upsertAccount_result:
  "\<exists>s'. ignoreErrors (upsertAccount fails a bt) s = (Inr (), s') \<and>
     dbLog s' = dbLog s @ [UpsertAccount a] \<and> stopRequested s' = stopRequested s \<and>
     blocks (db s') = blocks (db s) \<and> transactions (db s') = transactions (db s) \<and>
     eventRows (db s') = eventRows (db s) \<and> lastIndexedHeight (db s') = lastIndexedHeight (db s) \<and>
     (\<forall>a'. a' \<noteq> a \<longrightarrow> accountRows s' a' = accountRows s a')"
  by (simp add: ignoreErrors_def upsertAccount_def dbWrite_eq accountRows_def upsertRow_other)

lemma updateAccounts_loop:
  "\<exists>s'. forS (\<lambda>address.
            if address = [] \<or> length address < 10 then (\<lambda>s. (Inr (), s))
            else ignoreErrors (upsertAccount fails address bt)) addrs s = (Inr (), s') \<and>
     dbLog s' = dbLog s @ map UpsertAccount (filter (\<lambda>a. 10 \<le> length a) addrs) \<and>
     stopRequested s' = stopRequested s \<and>
     blocks (db s') = blocks (db s) \<and> transactions (db s') = transactions (db s) \<and>
     eventRows (db s') = eventRows (db s) \<and> lastIndexedHeight (db s') = lastIndexedHeight (db s) \<and>
     (\<forall>a. length a < 10 \<longrightarrow> accountRows s' a = accountRows s a)"
proof (induction addrs arbitrary: s)
  case Nil
  then show ?case by simp
next
  case (Cons x xs)
  show ?case
  proof (cases "length x < 10")
    case True
    then show ?thesis using Cons[of s] by (auto simp: bindS_def)
  next
    case False
    then have x: "x \<noteq> []" "10 \<le> length x" by auto
    obtain s1 where s1: "ignoreErrors (upsertAccount fails x bt) s = (Inr (), s1)"
      "dbLog s1 = dbLog s @ [UpsertAccount x]" "stopRequested s1 = stopRequested s"
      "blocks (db s1) = blocks (db s)" "transactions (db s1) = transactions (db s)"
      "eventRows (db s1) = eventRows (db s)" "lastIndexedHeight (db s1) = lastIndexedHeight (db s)"
      "\<forall>a'. a' \<noteq> x \<longrightarrow> accountRows s1 a' = accountRows s a'"
      using upsertAccount_result[of fails x bt s] by blast
    from Cons[of s1] obtain s2 where s2: "forS (\<lambda>address.
            if address = [] \<or> length address < 10 then (\<lambda>s. (Inr (), s))
            else ignoreErrors (upsertAccount fails address bt)) xs s1 = (Inr (), s2)"
      "dbLog s2 = dbLog s1 @ map UpsertAccount (filter (\<lambda>a. 10 \<le> length a) xs)"
      "stopRequested s2 = stopRequested s1"
      "blocks (db s2) = blocks (db s1)" "transactions (db s2) = transactions (db s1)"
      "eventRows (db s2) = eventRows (db s1)" "lastIndexedHeight (db s2) = lastIndexedHeight (db s1)"
      "\<forall>a. length a < 10 \<longrightarrow> accountRows s2 a = accountRows s1 a"
      by blast
    have "\<forall>a. length a < 10 \<longrightarrow> accountRows s2 a = accountRows s a"
      using s1(8) s2(8) x(2) by (metis not_less)
    then show ?thesis
      using x s1 s2 by (simp add: bindS_def)
  qed
qed

lemma updateAccounts_result:
  "\<exists>s'. updateAccounts fails txs bt s = (Inr (), s') \<and>
     dbLog s' = dbLog s @ map UpsertAccount (filter (\<lambda>a. 10 \<le> length a) (collectAddresses txs)) \<and>
     stopRequested s' = stopRequested s \<and>
     blocks (db s') = blocks (db s) \<and> transactions (db s') = transactions (db s) \<and>
     eventRows (db s') = eventRows (db s) \<and> lastIndexedHeight (db s') = lastIndexedHeight (db s) \<and>
     (\<forall>a. length a < 10 \<longrightarrow> accountRows s' a = accountRows s a)"
  unfolding updateAccounts_def by (rule updateAccounts_loop)

text \<open>
  C9. \<open>updateAccounts\<close> never fails, and it sends an Account upsert for exactly the collected
  strings that are non-empty and at least 10 characters long; the rows of a shorter address
  are left as they were.
\<close>

theorem short_addresses_dropped:
  "\<exists>s'. updateAccounts fails txs blockTime s = (Inr (), s') \<and>
     (\<forall>a. UpsertAccount a \<in> set (opsSince s s') \<longleftrightarrow>
            a \<in> set (collectAddresses txs) \<and> a \<noteq> [] \<and> 10 \<le> length a) \<and>
     (\<forall>a. length a < 10 \<longrightarrow> accountRows s' a = accountRows s a)"
proof -
  from updateAccounts_result[of fails txs blockTime s] obtain s' where
    s': "updateAccounts fails txs blockTime s = (Inr (), s')"
    "dbLog s' = dbLog s @ map UpsertAccount (filter (\<lambda>a. 10 \<le> length a) (collectAddresses txs))"
    "\<forall>a. length a < 10 \<longrightarrow> accountRows s' a = accountRows s a"
    by blast
  have "opsSince s s' = map UpsertAccount (filter (\<lambda>a. 10 \<le> length a) (collectAddresses txs))"
    using s'(2) by (simp add: opsSince_def)
  then have "\<forall>a. UpsertAccount a \<in> set (opsSince s s') \<longleftrightarrow>
            a \<in> set (collectAddresses txs) \<and> a \<noteq> [] \<and> 10 \<le> length a"
    by auto
  then show ?thesis using s'(1,3) by blast
qed


text \<open>
  A key containing \<open>Address\<close> with a 5-character value, and a value with the ledger prefix.
\<close>

theorem short_addresses_dropped_witness:
  "collectAddresses [demoTx] = [''short'', ''twilight1qqqqqqqq''] \<and>
   opsSince emptyEngine (snd (updateAccounts (\<lambda>opn. False) [demoTx] ''t'' emptyEngine)) =
     [UpsertAccount ''twilight1qqqqqqqq''] \<and>
   accountRows (snd (updateAccounts (\<lambda>opn. False) [demoTx] ''t'' emptyEngine)) ''short'' = []"
proof -
  have c: "collectAddresses [demoTx] = [''short'', ''twilight1qqqqqqqq'']"
    by (simp add: collectAddresses_def demoTx_def collectEntry_def addressLike_def toLowerCase_def
        toLowerChar_def setAdd_def)
  from short_addresses_dropped[of "\<lambda>opn. False" "[demoTx]" "''t''" emptyEngine] obtain s' where
    s': "updateAccounts (\<lambda>opn. False) [demoTx] ''t'' emptyEngine = (Inr (), s')"
    "\<forall>a. length a < 10 \<longrightarrow> accountRows s' a = accountRows emptyEngine a"
    by blast
  have "accountRows s' ''short'' = []"
    using s'(2) by (simp add: accountRows_def emptyEngine_def emptyStore_def)
  moreover have "opsSince emptyEngine (snd (updateAccounts (\<lambda>opn. False) [demoTx] ''t'' emptyEngine)) =
     [UpsertAccount ''twilight1qqqqqqqq'']"
    by (simp add: updateAccounts_def c bindS_def ignoreErrors_def upsertAccount_def dbWrite_eq
        opsSince_def emptyEngine_def)
  ultimately show ?thesis using c s'(1) by simp
qed

subsection \<open>The transactional unit\<close>

lemma upsertRow_find_other:
  assumes "k' \<noteq> k" "\<And>r. keyOf r = k \<Longrightarrow> keyOf (upd r) = k" "keyOf crt = k"
  shows "find (\<lambda>r. keyOf r = k') (upsertRow keyOf k upd crt rows) = find (\<lambda>r. keyOf r = k') rows"
proof -
  have "find (\<lambda>r. keyOf r = k') (map (\<lambda>r. if keyOf r = k then upd r else r) rows) =
      find (\<lambda>r. keyOf r = k') rows"
    using assms(1,2) by (induction rows) auto
  moreover have "find (\<lambda>r. keyOf r = k') (rows @ [crt]) = find (\<lambda>r. keyOf r = k') rows"
    using assms(1,3) by (induction rows) auto
  ultimately show ?thesis
    by (simp add: upsertRow_def)
qed

lemma stepRel_frame_dbWrite: "isWrite opn \<Longrightarrow> stepRel frame (dbWrite fails opn f)"
  by (simp add: stepRel_def frame_def dbWrite_eq)

lemma stepRel_frame_skip: "stepRel frame (\<lambda>s. (Inr (), s))"
  by (simp add: stepRel_def frame_def)

lemma stepRel_frame_ignoreErrors: "stepRel frame m \<Longrightarrow> stepRel frame (ignoreErrors m)"
  by (auto simp: stepRel_def ignoreErrors_def split: prod.splits) (metis snd_conv)

lemma stepRel_frame_transaction: "stepRel frame m \<Longrightarrow> stepRel frame (transaction m)"
  unfolding stepRel_def transaction_def
proof
  fix s
  assume a: "\<forall>s. frame s (snd (m s))"
  obtain r s1 where ms: "m s = (r, s1)" by (cases "m s")
  have "frame s s1" using a ms by (metis snd_conv)
  then show "frame s (snd (case m s of (Inl e, s') \<Rightarrow> (Inl e, s'\<lparr>db := db s\<rparr>) | (Inr u, s') \<Rightarrow> (Inr u, s')))"
    using ms by (cases r) (auto simp: frame_def)
qed

lemma stepRel_frame_forS: "(\<And>x. stepRel frame (f x)) \<Longrightarrow> stepRel frame (forS f xs)"
  by (rule stepRel_forS) (auto intro: frame_refl frame_trans)

lemma stepRel_frame_bindS:
  "stepRel frame m \<Longrightarrow> (\<And>v. stepRel frame (f v)) \<Longrightarrow> stepRel frame (bindS m f)"
  by (rule stepRel_bindS) (auto intro: frame_trans)

lemma stepRel_frame_updateAccounts: "stepRel frame (updateAccounts fails txs bt)"
  unfolding updateAccounts_def
  by (rule stepRel_frame_forS)
    (simp add: stepRel_frame_skip stepRel_frame_ignoreErrors stepRel_frame_dbWrite
      upsertAccount_def isWrite_def)

lemma stepRel_frame_commitBlock: "stepRel frame (commitBlock fails block txs evs)"
  unfolding commitBlock_def
  by (intro stepRel_frame_transaction stepRel_frame_bindS stepRel_frame_forS
      stepRel_frame_updateAccounts)
    (simp_all add: upsertBlock_def upsertTransaction_def createEvent_def upsertIndexerState_def
      stepRel_frame_dbWrite isWrite_def)

lemma frame_commitBlock: "commitBlock fails block txs evs s = (r, s') \<Longrightarrow> frame s s'"
  using stepRel_frame_commitBlock[of fails block txs evs] by (metis stepRel_def snd_conv)

text \<open>A loop of writes: it succeeds when no write fails, and then every write was applied.\<close>

lemma forS_writes_ok:
  assumes "list_all (\<lambda>x. \<not> fails (opf x)) xs"
  shows "forS (\<lambda>x. dbWrite fails (opf x) (g x)) xs s =
    (Inr (), s\<lparr>dbLog := dbLog s @ map opf xs, db := fold g xs (db s)\<rparr>)"
  using assms
proof (induction xs arbitrary: s)
  case Nil
  then show ?case by simp
next
  case (Cons x xs)
  then show ?case by (simp add: bindS_def dbWrite_eq)
qed

lemma forS_writes_fail:
  assumes "\<not> list_all (\<lambda>x. \<not> fails (opf x)) xs"
  shows "\<exists>s'. forS (\<lambda>x. dbWrite fails (opf x) (g x)) xs s = (Inl DbError, s')"
  using assms
proof (induction xs arbitrary: s)
  case Nil
  then show ?case by simp
next
  case (Cons x xs)
  then show ?case by (cases "fails (opf x)") (auto simp: bindS_def dbWrite_eq)
qed

lemma upsertTxs_fold:
  "fold (\<lambda>tx d. d\<lparr>transactions := upsertRow t_hash (t_hash tx) (\<lambda>r. tx) tx (transactions d)\<rparr>) txs d
    = d\<lparr>transactions := upsertTxs txs (transactions d)\<rparr>"
  unfolding upsertTxs_def by (induction txs arbitrary: d) simp_all

lemma events_fold:
  "fold (\<lambda>ev d. d\<lparr>eventRows := eventRows d @ [ev]\<rparr>) evs d = d\<lparr>eventRows := eventRows d @ evs\<rparr>"
  by (induction evs arbitrary: d) simp_all

lemma upsertTransaction_loop:
  "upsertTransaction fails =
    (\<lambda>tx. dbWrite fails (UpsertTransaction (t_hash tx))
       (\<lambda>d. d\<lparr>transactions := upsertRow t_hash (t_hash tx) (\<lambda>r. tx) tx (transactions d)\<rparr>))"
  by (rule ext) (simp add: upsertTransaction_def)

lemma createEvent_loop:
  "createEvent fails = (\<lambda>ev. dbWrite fails (CreateEvent ev) (\<lambda>d. d\<lparr>eventRows := eventRows d @ [ev]\<rparr>))"
  by (rule ext) (simp add: createEvent_def)

lemma forS_upsertTransaction_ok:
  assumes "list_all (\<lambda>tx. \<not> fails (UpsertTransaction (t_hash tx))) txs"
  shows "forS (upsertTransaction fails) txs s =
    (Inr (), s\<lparr>dbLog := dbLog s @ map (\<lambda>tx. UpsertTransaction (t_hash tx)) txs,
                db := (db s)\<lparr>transactions := upsertTxs txs (transactions (db s))\<rparr>\<rparr>)"
  unfolding upsertTransaction_loop
  using forS_writes_ok[of fails "\<lambda>tx. UpsertTransaction (t_hash tx)" txs, OF assms]
  by (simp add: upsertTxs_fold)

lemma forS_upsertTransaction_fail:
  assumes "\<not> list_all (\<lambda>tx. \<not> fails (UpsertTransaction (t_hash tx))) txs"
  shows "\<exists>s'. forS (upsertTransaction fails) txs s = (Inl DbError, s')"
  unfolding upsertTransaction_loop
  by (rule forS_writes_fail[of fails "\<lambda>tx. UpsertTransaction (t_hash tx)" txs, OF assms])

lemma forS_createEvent_ok:
  assumes "list_all (\<lambda>ev. \<not> fails (CreateEvent ev)) evs"
  shows "forS (createEvent fails) evs s =
    (Inr (), s\<lparr>dbLog := dbLog s @ map CreateEvent evs,
                db := (db s)\<lparr>eventRows := eventRows (db s) @ evs\<rparr>\<rparr>)"
  unfolding createEvent_loop
  using forS_writes_ok[of fails CreateEvent evs, OF assms]
  by (simp add: events_fold)

lemma forS_createEvent_fail:
  assumes "\<not> list_all (\<lambda>ev. \<not> fails (CreateEvent ev)) evs"
  shows "\<exists>s'. forS (createEvent fails) evs s = (Inl DbError, s')"
  unfolding createEvent_loop
  by (rule forS_writes_fail[of fails CreateEvent evs, OF assms])

lemma commitBlock_ok:
  assumes "commitOk fails (b_height block) txs evs"
  shows "\<exists>s'. commitBlock fails block txs evs s = (Inr (), s') \<and>
     map b_height (blocks (db s')) =
       (if b_height block \<in> set (blockHeights s) then blockHeights s
        else blockHeights s @ [b_height block]) \<and>
     (\<forall>k. k \<noteq> b_height block \<longrightarrow>
        find (\<lambda>b. b_height b = k) (blocks (db s')) = find (\<lambda>b. b_height b = k) (blocks (db s))) \<and>
     transactions (db s') = upsertTxs txs (transactions (db s)) \<and>
     eventRows (db s') = eventRows (db s) @ evs \<and>
     lastIndexedHeight (db s') = Some (b_height block)"
proof -
  let ?h = "b_height block"
  let ?upd = "\<lambda>r. r\<lparr>b_hash := b_hash block, b_timestamp := b_timestamp block,
                    b_proposer := b_proposer block, b_txCount := b_txCount block,
                    b_gasUsed := b_gasUsed block, b_gasWanted := b_gasWanted block\<rparr>"
  obtain s1 where s1: "upsertBlock fails block s = (Inr (), s1)"
    "blocks (db s1) = upsertRow b_height ?h ?upd block (blocks (db s))"
    "transactions (db s1) = transactions (db s)" "eventRows (db s1) = eventRows (db s)"
    using assms by (simp add: upsertBlock_def dbWrite_eq commitOk_def)
  obtain s2 where s2: "forS (upsertTransaction fails) txs s1 = (Inr (), s2)"
    "blocks (db s2) = blocks (db s1)" "transactions (db s2) = upsertTxs txs (transactions (db s1))"
    "eventRows (db s2) = eventRows (db s1)"
    using forS_upsertTransaction_ok[of fails txs s1] assms by (simp add: commitOk_def)
  obtain s3 where s3: "forS (createEvent fails) evs s2 = (Inr (), s3)"
    "blocks (db s3) = blocks (db s2)" "transactions (db s3) = transactions (db s2)"
    "eventRows (db s3) = eventRows (db s2) @ evs"
    using forS_createEvent_ok[of fails evs s2] assms by (simp add: commitOk_def)
  obtain s4 where s4: "updateAccounts fails txs (b_timestamp block) s3 = (Inr (), s4)"
    "blocks (db s4) = blocks (db s3)" "transactions (db s4) = transactions (db s3)"
    "eventRows (db s4) = eventRows (db s3)"
    using updateAccounts_result[of fails txs "b_timestamp block" s3] by blast
  obtain s5 where s5: "upsertIndexerState fails ?h s4 = (Inr (), s5)"
    "blocks (db s5) = blocks (db s4)" "transactions (db s5) = transactions (db s4)"
    "eventRows (db s5) = eventRows (db s4)" "lastIndexedHeight (db s5) = Some ?h"
    using assms by (simp add: upsertIndexerState_def dbWrite_eq commitOk_def)
  have c: "commitBlock fails block txs evs s = (Inr (), s5)"
    unfolding commitBlock_def transaction_def
    by (simp add: bindS_def s1(1) s2(1) s3(1) s4(1) s5(1))
  have b: "blocks (db s5) = upsertRow b_height ?h ?upd block (blocks (db s))"
    using s1 s2 s3 s4 s5 by simp
  have "map b_height (blocks (db s5)) =
       (if ?h \<in> set (blockHeights s) then blockHeights s else blockHeights s @ [?h])"
    unfolding b blockHeights_def by (rule upsertRow_keys) simp_all
  moreover have "\<forall>k. k \<noteq> ?h \<longrightarrow>
        find (\<lambda>b. b_height b = k) (blocks (db s5)) = find (\<lambda>b. b_height b = k) (blocks (db s))"
    unfolding b by (simp add: upsertRow_find_other)
  ultimately show ?thesis
    using c s1 s2 s3 s4 s5 by simp
qed

lemma commitBlock_fail:
  assumes "\<not> commitOk fails (b_height block) txs evs"
  shows "\<exists>s'. commitBlock fails block txs evs s = (Inl DbError, s') \<and> db s' = db s"
proof -
  let ?h = "b_height block"
  let ?body = "bindS (upsertBlock fails block) (\<lambda>u.
       bindS (forS (upsertTransaction fails) txs) (\<lambda>u.
       bindS (forS (createEvent fails) evs) (\<lambda>u.
       bindS (updateAccounts fails txs (b_timestamp block)) (\<lambda>u.
       upsertIndexerState fails (b_height block)))))"
  have "\<exists>s'. ?body s = (Inl DbError, s')"
  proof (cases "fails (UpsertBlock ?h)")
    case True
    then show ?thesis by (simp add: bindS_def upsertBlock_def dbWrite_eq)
  next
    case False
    then obtain s1 where s1: "upsertBlock fails block s = (Inr (), s1)"
      by (simp add: upsertBlock_def dbWrite_eq)
    show ?thesis
    proof (cases "list_all (\<lambda>tx. \<not> fails (UpsertTransaction (t_hash tx))) txs")
      case False
      then obtain s2 where "forS (upsertTransaction fails) txs s1 = (Inl DbError, s2)"
        using forS_upsertTransaction_fail by blast
      then show ?thesis by (auto simp: bindS_def s1)
    next
      case True
      then obtain s2 where s2: "forS (upsertTransaction fails) txs s1 = (Inr (), s2)"
        using forS_upsertTransaction_ok by blast
      show ?thesis
      proof (cases "list_all (\<lambda>ev. \<not> fails (CreateEvent ev)) evs")
        case False
        then obtain s3 where "forS (createEvent fails) evs s2 = (Inl DbError, s3)"
          using forS_createEvent_fail by blast
        then show ?thesis by (auto simp: bindS_def s1 s2)
      next
        case t3: True
        then obtain s3 where s3: "forS (createEvent fails) evs s2 = (Inr (), s3)"
          using forS_createEvent_ok by blast
        obtain s4 where s4: "updateAccounts fails txs (b_timestamp block) s3 = (Inr (), s4)"
          using updateAccounts_result[of fails txs "b_timestamp block" s3] by blast
        have "fails (UpsertIndexerState ?h)"
          using assms \<open>\<not> fails (UpsertBlock ?h)\<close> True t3 by (simp add: commitOk_def)
        then show ?thesis
          by (simp add: bindS_def s1 s2 s3 s4 upsertIndexerState_def dbWrite_eq)
      qed
    qed
  qed
  then show ?thesis
    unfolding commitBlock_def transaction_def by auto
qed

subsection \<open>One call of processBlock\<close>

lemma mapE_error: "mapE f xs = Inl e \<Longrightarrow> \<exists>x \<in> set xs. f x = Inl e"
  by (induction xs) (auto simp: bindE_def split: sum.splits)

lemma bigIntE_error: "bigIntE rt v = Inl e \<Longrightarrow> e = SyntaxError"
  by (simp add: bigIntE_def split: option.splits)

lemma processTransaction_error:
  "processTransaction rt tx h t = Inl e \<Longrightarrow> e = TypeError \<or> e = SyntaxError"
proof -
  assume a: "processTransaction rt tx h t = Inl e"
  have d: "decodeMessages rt ms = Inl e' \<Longrightarrow> e' = TypeError" for ms e'
    unfolding decodeMessages_def
    by (drule mapE_error) (auto simp: decodeMessage_def bindE_def split: option.splits sum.splits)
  show ?thesis
    using a d bigIntE_error
    by (auto simp: processTransaction_def Let_def bindE_def split: sum.splits)
qed

lemma processTxs_error:
  "processTxs rt h t rs acc = Inl e \<Longrightarrow> e = TypeError \<or> e = SyntaxError"
proof (induction rs arbitrary: acc)
  case Nil
  then show ?case by simp
next
  case (Cons tx rest)
  obtain txs evs gu gw where acc: "acc = (txs, evs, gu, gw)" by (cases acc) auto
  show ?case
    using Cons processTransaction_error[of rt tx h t]
    by (auto simp: acc bindE_def split: if_splits sum.splits)
qed

lemma linkageMismatch_eq:
  "linkageMismatch fails h bi s =
    (if linkageGuard h bi then
       (if fails (FindBlock (h - 1)) then (Inl DbError, s\<lparr>dbLog := dbLog s @ [FindBlock (h - 1)]\<rparr>)
        else (Inr (case storedBlock s (h - 1) of
                     None \<Rightarrow> False
                   | Some pb \<Rightarrow> b_hash pb \<noteq> expectedPrevHash bi),
              s\<lparr>dbLog := dbLog s @ [FindBlock (h - 1)]\<rparr>))
     else (Inr False, s))"
  by (auto simp: linkageMismatch_def linkageGuard_def expectedPrevHash_def findBlock_def dbRead_eq
      bindS_def storedBlock_def split: option.splits)

text \<open>The outcomes of the \<open>catch\<close> branch for status 400.\<close>

lemma fallback_cases:
  assumes "emptyBlockFallback env h s = (r, s')"
  shows "frame s s' \<and>
    ((\<exists>e. r = Inl e) \<and> db s' = db s \<or>
     r = Inr () \<and> blockHeights s' = heightsAfter h s \<and> lastIndexedHeight (db s') = Some h \<or>
     r = Inl DbError \<and> blockHeights s' = heightsAfter h s \<and>
       lastIndexedHeight (db s') = lastIndexedHeight (db s))"
proof (cases "headerRetry env")
  case (Inl e)
  then show ?thesis using assms by (auto simp: emptyBlockFallback_def frame_def)
next
  case (Inr bi)
  let ?upd = "\<lambda>r. r\<lparr>b_hash := block_id_hash bi, b_timestamp := header_time bi,
                     b_proposer := proposerOf bi, b_txCount := 0\<rparr>"
  let ?crt = "\<lparr> b_height = h, b_hash = block_id_hash bi, b_timestamp = header_time bi,
                b_proposer = proposerOf bi, b_txCount = 0, b_gasUsed = None, b_gasWanted = None \<rparr>"
  have k: "map b_height (upsertRow b_height h ?upd ?crt (blocks (db s))) = heightsAfter h s"
    unfolding heightsAfter_def blockHeights_def by (rule upsertRow_keys) simp_all
  show ?thesis
    using assms Inr k
    by (auto simp: emptyBlockFallback_def bindS_def dbWrite_eq upsertIndexerState_def frame_def
        isWrite_def blockHeights_def split: if_splits)
qed


lemma commitBlock_error:
  assumes "commitBlock fails block txs evs s = (Inl e, s')"
  shows "e = DbError \<and> db s' = db s"
proof (cases "commitOk fails (b_height block) txs evs")
  case True
  then show ?thesis using commitBlock_ok[of fails block txs evs s] assms by auto
next
  case False
  then show ?thesis using commitBlock_fail[of fails block txs evs s] assms by auto
qed

lemma processBlock_header_error:
  assumes "headerResp env = Inl e"
  shows "processBlock rt env h s =
    (if e = HttpError 400 then emptyBlockFallback env h s else (Inl e, s))"
  using assms by (simp add: processBlock_def processBlockTry_def)

lemma processBlock_main:
  assumes hdr: "headerResp env = Inr bi" and run: "processBlock rt env h s = (r, s')"
  shows
    "linkageGuard h bi \<and> dbFails env (FindBlock (h - 1)) \<and> r = Inl DbError \<and>
       s' = afterLinkage h bi s
     \<or> reorgDetected (dbFails env) h bi s \<and> r = Inr () \<and>
       s' = (afterLinkage h bi s)\<lparr>stopRequested := True\<rparr>
     \<or> \<not> reorgDetected (dbFails env) h bi s \<and>
       \<not> (linkageGuard h bi \<and> dbFails env (FindBlock (h - 1))) \<and>
       ((\<exists>e. processTxs rt h (header_time bi) (txResponsesOf env) ([], [], 0, 0) = Inl e \<and>
             r = Inl e \<and> s' = afterLinkage h bi s)
        \<or> (\<exists>txs evs gu gw.
             processTxs rt h (header_time bi) (txResponsesOf env) ([], [], 0, 0) = Inr (txs, evs, gu, gw) \<and>
             commitBlock (dbFails env) (blockRowOf env h bi gu gw) txs evs (afterLinkage h bi s) = (r, s')))"
proof -
  let ?s1 = "afterLinkage h bi s"
  let ?p = "processTxs rt h (header_time bi) (txResponsesOf env) ([], [], 0, 0)"
  have tr: "(case txsResp env of Inl err \<Rightarrow> [] | Inr None \<Rightarrow> [] | Inr (Some rs) \<Rightarrow> rs) = txResponsesOf env"
    by (simp add: txResponsesOf_def)
  consider (rf) "linkageGuard h bi" "dbFails env (FindBlock (h - 1))"
    | (mm) "reorgDetected (dbFails env) h bi s"
    | (go) "\<not> reorgDetected (dbFails env) h bi s" "\<not> (linkageGuard h bi \<and> dbFails env (FindBlock (h - 1)))"
    by blast
  then show ?thesis
  proof cases
    case rf
    then show ?thesis
      using run hdr
      by (auto simp: processBlock_def processBlockTry_def linkageMismatch_eq bindS_def afterLinkage_def)
  next
    case mm
    then show ?thesis
      using run hdr
      by (auto simp: processBlock_def processBlockTry_def linkageMismatch_eq bindS_def afterLinkage_def
          reorgDetected_def split: option.splits)
  next
    case go
    have lm: "linkageMismatch (dbFails env) h bi s = (Inr False, ?s1)"
      using go by (auto simp: linkageMismatch_eq afterLinkage_def reorgDetected_def split: option.splits)
    show ?thesis
    proof (cases ?p)
      case (Inl e)
      then have "e \<noteq> HttpError 400" using processTxs_error by blast
      then have "processBlock rt env h s = (Inl e, ?s1)"
        using hdr lm Inl by (simp add: processBlock_def processBlockTry_def bindS_def tr)
      then show ?thesis using run go Inl by auto
    next
      case (Inr res)
      obtain txs evs gu gw where res: "res = (txs, evs, gu, gw)" by (cases res) auto
      let ?c = "commitBlock (dbFails env) (blockRowOf env h bi gu gw) txs evs ?s1"
      have t: "processBlockTry rt env h s = ?c"
        using hdr lm Inr res
        by (simp add: processBlockTry_def bindS_def tr blockRowOf_def)
      obtain rc sc where c: "?c = (rc, sc)" by (cases ?c)
      have "processBlock rt env h s = (rc, sc)"
      proof (cases rc)
        case (Inl e)
        then have "e = DbError" using c commitBlock_error by blast
        then show ?thesis using t c Inl by (simp add: processBlock_def)
      next
        case (Inr u)
        then show ?thesis using t c by (simp add: processBlock_def)
      qed
      then show ?thesis using run go Inr res c by auto
    qed
  qed
qed

subsection \<open>Reorg detection\<close>

lemma syncBatch_stopped: "stopRequested s \<Longrightarrow> syncBatch rt envs k endH s = s"
  by (subst syncBatch.simps) simp

lemma syncLoop_stopped: "stopRequested s \<Longrightarrow> syncLoop rt cfg evs s = (LoopExited, s)"
  by (cases evs) simp_all

text \<open>
  The main path. When the first request for the header of a height above 1 succeeds and the
  header carries a (non-empty) \<open>last_block_id\<close> hash different from the hash of the stored
  block below it, \<open>processBlock\<close> returns having only read that block: the store is
  unchanged, \<open>stopRequested\<close> is set, and from then on neither the batch loop nor the
  outer loop processes anything.
\<close>

lemma reorg_halts_main_path:
  assumes "1 < h" and "headerResp env = Inr bi"
    and "last_block_id_hash bi = Some e" and "e \<noteq> []"
    and "storedBlock s (h - 1) = Some pb" and "b_hash pb \<noteq> e"
    and "\<not> dbFails env (FindBlock (h - 1))"
  shows "\<exists>s'. processBlock rt env h s = (Inr (), s') \<and>
      db s' = db s \<and> opsSince s s' = [FindBlock (h - 1)] \<and> stopRequested s' \<and>
      (\<forall>envs k endH. syncBatch rt envs k endH s' = s') \<and>
      (\<forall>cfg evs. syncLoop rt cfg evs s' = (LoopExited, s'))"
proof -
  let ?s' = "s\<lparr>dbLog := dbLog s @ [FindBlock (h - 1)], stopRequested := True\<rparr>"
  have g: "linkageGuard h bi" "expectedPrevHash bi = e"
    using assms by (simp_all add: linkageGuard_def expectedPrevHash_def)
  have "processBlock rt env h s = (Inr (), ?s')"
    using assms g
    by (simp add: processBlock_def processBlockTry_def linkageMismatch_eq bindS_def)
  moreover have "db ?s' = db s" "opsSince s ?s' = [FindBlock (h - 1)]" "stopRequested ?s'"
    by (simp_all add: opsSince_def)
  ultimately show ?thesis
    using syncBatch_stopped[of ?s' rt] syncLoop_stopped[of ?s' rt] by blast
qed

text \<open>Block 1 stored with hash \<open>AA\<close>, header 2 expecting \<open>BB\<close>.\<close>

lemma reorg_halts_main_path_example:
  "storedBlock engineAt1 1 =
     Some \<lparr> b_height = 1, b_hash = ''AA'', b_timestamp = ''2024-01-01T00:00:00Z'',
            b_proposer = None, b_txCount = 0, b_gasUsed = Some 0, b_gasWanted = Some 0 \<rparr> \<and>
   processBlock demoRuntime (env2 (Some ''BB'')) 2 engineAt1 =
     (Inr (), engineAt1\<lparr>dbLog := [FindBlock 1], stopRequested := True\<rparr>) \<and>
   syncLoop demoRuntime \<lparr>startHeight = 1, batchSize = 10\<rparr>
       [\<lparr>stateReadFails = False, latestResp = Inr 5, blockEnvs = (\<lambda>k. env2 (Some ''AA''))\<rparr>]
       (engineAt1\<lparr>dbLog := [FindBlock 1], stopRequested := True\<rparr>) =
     (LoopExited, engineAt1\<lparr>dbLog := [FindBlock 1], stopRequested := True\<rparr>)"
proof -
  let ?pb = "\<lparr> b_height = 1, b_hash = ''AA'', b_timestamp = ''2024-01-01T00:00:00Z'',
            b_proposer = None, b_txCount = 0, b_gasUsed = Some 0, b_gasWanted = Some 0 \<rparr>"
  have st: "storedBlock engineAt1 (2 - 1) = Some ?pb"
    by (simp add: storedBlock_def engineAt1_def)
  from reorg_halts_main_path[of 2 "env2 (Some ''BB'')" "header2 (Some ''BB'')" "''BB''" engineAt1 ?pb demoRuntime]
  obtain s' where s': "processBlock demoRuntime (env2 (Some ''BB'')) 2 engineAt1 = (Inr (), s')"
    "db s' = db engineAt1" "opsSince engineAt1 s' = [FindBlock (2 - 1)]" "stopRequested s'"
    "\<forall>cfg evs. syncLoop demoRuntime cfg evs s' = (LoopExited, s')"
    using st by (auto simp: env2_def header2_def)
  have "s' = engineAt1\<lparr>dbLog := [FindBlock 1], stopRequested := True\<rparr>"
    using s'(2,3,4) by (cases s') (simp add: opsSince_def engineAt1_def)
  then show ?thesis using s'(1,5) st by simp
qed

text \<open>
  C1 on the fallback path: block 1 is stored with hash \<open>AA\<close>, the first header request
  for height 2 is refused with status 400, and the header fetched again by the \<open>catch\<close>
  branch expects \<open>BB\<close>. The stored block is never read: block 2 is written with the hash
  of the new header, the checkpoint advances to 2 and the engine is not halted.
\<close>

theorem fallback_ignores_reorg:
  "map_option b_hash (storedBlock engineAt1 1) = Some ''AA'' \<and>
   map_sum (\<lambda>e. e) last_block_id_hash (headerRetry envFallbackReorg) = Inr (Some ''BB'') \<and>
   fst (processBlock demoRuntime envFallbackReorg 2 engineAt1) = Inr () \<and>
   opsSince engineAt1 (snd (processBlock demoRuntime envFallbackReorg 2 engineAt1)) =
     [UpsertBlock 2, UpsertIndexerState 2] \<and>
   map_option b_hash (storedBlock (snd (processBlock demoRuntime envFallbackReorg 2 engineAt1)) 2) =
     Some ''CC'' \<and>
   lastIndexedHeight (db (snd (processBlock demoRuntime envFallbackReorg 2 engineAt1))) = Some 2 \<and>
   stopRequested (snd (processBlock demoRuntime envFallbackReorg 2 engineAt1)) = False"
  by (simp add: processBlock_def processBlockTry_def envFallbackReorg_def emptyBlockFallback_def
      header2_def bindS_def dbWrite_eq upsertIndexerState_def upsertRow_def engineAt1_def
      storedBlock_def opsSince_def proposerOf_def)

subsection \<open>When the linkage validation runs\<close>

lemma opsSince_afterLinkage:
  "opsSince s (afterLinkage h bi s) = (if linkageGuard h bi then [FindBlock (h - 1)] else [])"
  by (simp add: opsSince_def afterLinkage_def)

lemma frame_ops:
  assumes "frame s1 s'" "dbLog s1 = dbLog s @ pre"
  shows "\<exists>ops. opsSince s s' = pre @ ops \<and> list_all isWrite ops \<and> stopRequested s' = stopRequested s1"
  using assms by (auto simp: frame_def opsSince_def)

text \<open>
  C7, as the main path has it. When the first request for the header of \<open>h\<close> succeeds, the
  stored block \<open>h - 1\<close> is read exactly when \<open>h > 1\<close> and the header carries a non-empty
  \<open>last_block_id\<close> hash, no other block is read, and the engine is halted by this call
  exactly when that read succeeds and finds a block whose hash differs. The statement is about
  this path only; it says nothing of the \<open>catch\<close> branch for status 400.
\<close>

theorem linkage_check_guard:
  assumes hdr: "headerResp env = Inr bi" and run: "processBlock rt env h s = (r, s')"
  shows "(FindBlock (h - 1) \<in> set (opsSince s s') \<longleftrightarrow> linkageGuard h bi) \<and>
    (\<forall>k. FindBlock k \<in> set (opsSince s s') \<longrightarrow> k = h - 1) \<and>
    (stopRequested s' \<longleftrightarrow> stopRequested s \<or> reorgDetected (dbFails env) h bi s)"
proof -
  let ?s1 = "afterLinkage h bi s"
  let ?pre = "if linkageGuard h bi then [FindBlock (h - 1)] else []"
  have l1: "dbLog ?s1 = dbLog s @ ?pre" "stopRequested ?s1 = stopRequested s"
    by (simp_all add: afterLinkage_def)
  have nf: "list_all isWrite ops \<Longrightarrow> FindBlock k \<notin> set ops" for ops k
    by (auto simp: list_all_iff isWrite_def)
  have rd: "reorgDetected (dbFails env) h bi s \<Longrightarrow> linkageGuard h bi"
    by (simp add: reorgDetected_def)
  from processBlock_main[OF hdr run]
  consider (rf) "linkageGuard h bi" "s' = ?s1"
      "\<not> reorgDetected (dbFails env) h bi s"
    | (mm) "reorgDetected (dbFails env) h bi s" "s' = ?s1\<lparr>stopRequested := True\<rparr>"
    | (pe) "\<not> reorgDetected (dbFails env) h bi s" "s' = ?s1"
    | (cm) txs evs gu gw where "\<not> reorgDetected (dbFails env) h bi s"
      "commitBlock (dbFails env) (blockRowOf env h bi gu gw) txs evs ?s1 = (r, s')"
    by (auto simp: reorgDetected_def)
  then show ?thesis
  proof cases
    case rf
    then show ?thesis using l1 by (simp add: opsSince_def)
  next
    case mm
    then show ?thesis using l1 rd by (simp add: opsSince_def)
  next
    case pe
    then show ?thesis using l1 by (simp add: opsSince_def)
  next
    case cm
    from frame_ops[OF frame_commitBlock[OF cm(2)] l1(1)] obtain ops where
      ops: "opsSince s s' = ?pre @ ops" "list_all isWrite ops" "stopRequested s' = stopRequested ?s1"
      by blast
    show ?thesis using ops nf[OF ops(2)] cm(1) l1(2) by auto
  qed
qed

text \<open>
  C7 as stated fails on the main path: at height 2, with block 1 stored and a header whose
  \<open>last_block_id\<close> hash is empty, the stored block is never read and block 2 is committed.
\<close>

theorem linkage_check_skipped_counterexample:
  "storedBlock engineAt1 1 \<noteq> None \<and>
   fst (processBlock demoRuntime (env2 (Some [])) 2 engineAt1) = Inr () \<and>
   opsSince engineAt1 (snd (processBlock demoRuntime (env2 (Some [])) 2 engineAt1)) =
     [UpsertBlock 2, UpsertIndexerState 2] \<and>
   lastIndexedHeight (db (snd (processBlock demoRuntime (env2 (Some [])) 2 engineAt1))) = Some 2"
  by (simp add: storedBlock_def engineAt1_def processBlock_def processBlockTry_def linkageMismatch_eq
      linkageGuard_def expectedPrevHash_def env2_def header2_def bindS_def commitBlock_def
      transaction_def upsertBlock_def upsertIndexerState_def dbWrite_eq updateAccounts_def
      collectAddresses_def upsertRow_def opsSince_def proposerOf_def)

text \<open>Header 2 expecting \<open>BB\<close> over a stored block 1 with hash \<open>AA\<close>.\<close>

theorem linkage_check_guard_witness:
  "linkageGuard 2 (header2 (Some ''BB'')) \<and>
   reorgDetected (\<lambda>opn. False) 2 (header2 (Some ''BB'')) engineAt1 \<and>
   FindBlock 1 \<in> set (opsSince engineAt1 (snd (processBlock demoRuntime (env2 (Some ''BB'')) 2 engineAt1))) \<and>
   stopRequested (snd (processBlock demoRuntime (env2 (Some ''BB'')) 2 engineAt1))"
proof -
  have g: "linkageGuard 2 (header2 (Some ''BB''))"
    by (simp add: linkageGuard_def expectedPrevHash_def header2_def)
  have d: "reorgDetected (\<lambda>opn. False) 2 (header2 (Some ''BB'')) engineAt1"
    by (simp add: reorgDetected_def linkageGuard_def storedBlock_def engineAt1_def
        expectedPrevHash_def header2_def)
  obtain r s' where run: "processBlock demoRuntime (env2 (Some ''BB'')) 2 engineAt1 = (r, s')"
    by (cases "processBlock demoRuntime (env2 (Some ''BB'')) 2 engineAt1")
  have hdr: "headerResp (env2 (Some ''BB'')) = Inr (header2 (Some ''BB''))"
    by (simp add: env2_def)
  have df: "dbFails (env2 (Some ''BB'')) = (\<lambda>opn. False)"
    by (simp add: env2_def)
  from linkage_check_guard[OF hdr run] g d
  have "FindBlock 1 \<in> set (opsSince engineAt1 s')" "stopRequested s'"
    by (simp_all add: df)
  then show ?thesis unfolding run snd_conv using g d by blast
qed

subsection \<open>The empty-block fallback\<close>

text \<open>
  C2 on the fallback path: the first header request is answered with status 400, the second
  succeeds, the block upsert succeeds and the checkpoint write fails. The call throws, block
  2 stays in the store and the checkpoint stays at 1.
\<close>

theorem fallback_partial_write:
  "fst (processBlock demoRuntime envFallback 2 engineAt1) = Inl DbError \<and>
   blockHeights (snd (processBlock demoRuntime envFallback 2 engineAt1)) = [1, 2] \<and>
   lastIndexedHeight (db (snd (processBlock demoRuntime envFallback 2 engineAt1))) = Some 1 \<and>
   opsSince engineAt1 (snd (processBlock demoRuntime envFallback 2 engineAt1)) =
     [UpsertBlock 2, UpsertIndexerState 2]"
  by (simp add: processBlock_def processBlockTry_def envFallback_def emptyBlockFallback_def
      header2_def bindS_def dbWrite_eq upsertIndexerState_def upsertRow_def engineAt1_def
      blockHeights_def opsSince_def proposerOf_def)

subsection \<open>The checkpoint invariant\<close>

lemma blockHeights_afterLinkage: "blockHeights (afterLinkage h bi s) = blockHeights s"
  by (simp add: blockHeights_def afterLinkage_def)

lemma processBlock_outcome:
  assumes run: "processBlock rt env h s = (r, s')"
  shows "db s' = db s \<and> (r = Inr () \<longrightarrow> stopRequested s')
    \<or> stopRequested s' = stopRequested s \<and> blockHeights s' = heightsAfter h s \<and>
        (r = Inr () \<and> lastIndexedHeight (db s') = Some h
         \<or> r = Inl DbError \<and> lastIndexedHeight (db s') = lastIndexedHeight (db s))"
proof (cases "headerResp env")
  case (Inl e)
  show ?thesis
  proof (cases "e = HttpError 400")
    case True
    then have "emptyBlockFallback env h s = (r, s')"
      using run processBlock_header_error[OF Inl, of rt h s] by simp
    from fallback_cases[OF this] show ?thesis by (auto simp: frame_def)
  next
    case False
    then show ?thesis using run processBlock_header_error[OF Inl, of rt h s] by auto
  qed
next
  case (Inr bi)
  let ?s1 = "afterLinkage h bi s"
  have d1: "db ?s1 = db s" "stopRequested ?s1 = stopRequested s"
    by (simp_all add: afterLinkage_def)
  from processBlock_main[OF Inr run]
  consider (same) "s' = ?s1" "\<exists>e. r = Inl e"
    | (mm) "s' = ?s1\<lparr>stopRequested := True\<rparr>"
    | (cm) txs evs gu gw where
      "commitBlock (dbFails env) (blockRowOf env h bi gu gw) txs evs ?s1 = (r, s')"
    by auto
  then show ?thesis
  proof cases
    case same
    then show ?thesis using d1 by auto
  next
    case mm
    then show ?thesis using d1 by simp
  next
    case cm
    have bh: "b_height (blockRowOf env h bi gu gw) = h"
      by (simp add: blockRowOf_def)
    show ?thesis
    proof (cases r)
      case (Inl e)
      then show ?thesis using commitBlock_error[of "dbFails env" _ txs evs ?s1 e s'] cm d1 by auto
    next
      case (Inr u)
      have ok: "commitOk (dbFails env) h txs evs"
        using commitBlock_fail[of "dbFails env" "blockRowOf env h bi gu gw" txs evs ?s1] cm Inr bh
        by auto
      from commitBlock_ok[of "dbFails env" "blockRowOf env h bi gu gw" txs evs ?s1] ok bh cm
      have "map b_height (blocks (db s')) =
          (if h \<in> set (blockHeights ?s1) then blockHeights ?s1 else blockHeights ?s1 @ [h])"
        "lastIndexedHeight (db s') = Some h"
        by auto
      then have "blockHeights s' = heightsAfter h ?s1" "lastIndexedHeight (db s') = Some h"
        unfolding heightsAfter_def by (simp_all add: blockHeights_def[of s'])
      then have "blockHeights s' = heightsAfter h s" "lastIndexedHeight (db s') = Some h"
        by (simp_all add: heightsAfter_def blockHeights_afterLinkage)
      moreover have "stopRequested s' = stopRequested s"
        using frame_commitBlock[OF cm] d1 by (simp add: frame_def)
      ultimately show ?thesis using Inr by simp
    qed
  qed
qed

lemma ckptInv_db: "db s' = db s \<Longrightarrow> ckptInv first cfg s' = ckptInv first cfg s"
  by (simp add: ckptInv_def lastIndexedOf_def blockHeights_def)

lemma set_heightsAfter: "set (heightsAfter h s) = insert h (set (blockHeights s))"
  by (auto simp: heightsAfter_def)

lemma processBlock_inv:
  assumes inv: "ckptInv first cfg s" and h: "h = lastIndexedOf cfg s + 1"
    and run: "processBlock rt env h s = (r, s')"
  shows "ckptInv first cfg s' \<and>
    (r = Inr () \<and> \<not> stopRequested s' \<longrightarrow> ckptExact first s' h \<and> lastIndexedOf cfg s' = h)"
proof -
  have b: "first \<le> h" "set (blockHeights s) \<subseteq> {first .. h}"
    "{first .. h - 1} \<subseteq> set (blockHeights s)"
    using inv h by (simp_all add: ckptInv_def)
  from processBlock_outcome[OF run]
  consider (same) "db s' = db s" "r = Inr () \<longrightarrow> stopRequested s'"
    | (fin) "blockHeights s' = heightsAfter h s" "lastIndexedHeight (db s') = Some h"
    | (part) "blockHeights s' = heightsAfter h s" "r = Inl DbError"
      "lastIndexedHeight (db s') = lastIndexedHeight (db s)"
    by blast
  then show ?thesis
  proof cases
    case same
    have "ckptInv first cfg s'" using inv ckptInv_db[OF same(1)] by simp
    then show ?thesis using same(2) by blast
  next
    case fin
    have l: "lastIndexedOf cfg s' = h" using fin(2) by (simp add: lastIndexedOf_def)
    have sb: "set (blockHeights s') = insert h (set (blockHeights s))"
      using fin(1) by (simp add: set_heightsAfter)
    have "set (blockHeights s') = {first .. h}"
    proof (rule set_eqI)
      fix x
      show "x \<in> set (blockHeights s') \<longleftrightarrow> x \<in> {first .. h}"
      proof (cases "x = h")
        case True
        then show ?thesis using b(1) sb by simp
      next
        case False
        have "x \<in> {first .. h} \<Longrightarrow> x \<in> {first .. h - 1}" using False by simp
        then have "x \<in> {first .. h} \<Longrightarrow> x \<in> set (blockHeights s)" using b(3) by (rule subsetD[rotated])
        moreover have "x \<in> set (blockHeights s) \<Longrightarrow> x \<in> {first .. h}" using b(2) by (rule subsetD)
        ultimately show ?thesis using False sb by (simp del: atLeastAtMost_iff) blast
      qed
    qed
    then have e: "ckptExact first s' h" using fin(2) by (simp add: ckptExact_def)
    have "ckptInv first cfg s'"
      unfolding ckptInv_def l using \<open>set (blockHeights s') = {first .. h}\<close> b(1) by simp
    then show ?thesis using e l by simp
  next
    case part
    have l: "lastIndexedOf cfg s' = h - 1" using part(3) h by (simp add: lastIndexedOf_def)
    have sb: "set (blockHeights s') = insert h (set (blockHeights s))"
      using part(1) by (simp add: set_heightsAfter)
    have "ckptInv first cfg s'"
      unfolding ckptInv_def l sb using b by auto
    then show ?thesis using part(2) by simp
  qed
qed

lemma syncBatch_inv:
  "ckptInv first cfg s \<Longrightarrow> height = lastIndexedOf cfg s + 1 \<Longrightarrow>
   ckptInv first cfg (syncBatch rt envs height endHeight s)"
proof (induction rt envs height endHeight s rule: syncBatch.induct)
  case (1 rt envs height endHeight s)
  show ?case
  proof (cases "height \<le> endHeight \<and> \<not> stopRequested s")
    case False
    then show ?thesis using "1.prems"(1) by (subst syncBatch.simps) auto
  next
    case True
    obtain r s' where run: "processBlock rt (envs height) height s = (r, s')"
      by (cases "processBlock rt (envs height) height s")
    note pi = processBlock_inv[OF "1.prems"(1) "1.prems"(2) run]
    show ?thesis
    proof (cases r)
      case (Inl e)
      then show ?thesis using True run pi by (subst syncBatch.simps) simp
    next
      case (Inr u)
      show ?thesis
      proof (cases "stopRequested s'")
        case st: True
        have "syncBatch rt envs (height + 1) endHeight s' = s'"
          using st by (subst syncBatch.simps) simp
        then show ?thesis using True run Inr pi by (subst syncBatch.simps) simp
      next
        case st: False
        have "ckptInv first cfg (syncBatch rt envs (height + 1) endHeight s')"
          using "1.IH" True run Inr pi st by auto
        then show ?thesis using True run Inr by (subst syncBatch.simps) simp
      qed
    qed
  qed
qed

lemma syncLoop_inv:
  "ckptInv first cfg s \<Longrightarrow> ckptInv first cfg (snd (syncLoop rt cfg evs s))"
proof (induction evs arbitrary: s)
  case Nil
  then show ?case by simp
next
  case (Cons ev evs)
  let ?s1 = "s\<lparr>dbLog := dbLog s @ [FindIndexerState]\<rparr>"
  have i1: "ckptInv first cfg ?s1" "lastIndexedOf cfg ?s1 = lastIndexedOf cfg s"
    using Cons.prems ckptInv_db[of ?s1 s first cfg] by (simp_all add: lastIndexedOf_def)
  have g: "getLastIndexedHeight cfg (stateReadFails ev) s =
      (if stateReadFails ev then (Inl DbError, ?s1) else (Inr (lastIndexedOf cfg s), ?s1))"
    by (simp add: getLastIndexedHeight_def dbRead_eq lastIndexedOf_def)
  show ?case
  proof (cases "stopRequested s \<or> stateReadFails ev")
    case True
    then show ?thesis using Cons.prems i1 g by auto
  next
    case False
    show ?thesis
    proof (cases "latestResp ev")
      case (Inl e)
      then show ?thesis using False g i1 by simp
    next
      case (Inr latestHeight)
      let ?start = "lastIndexedOf cfg s + 1"
      let ?end = "min (?start + batchSize cfg - 1) latestHeight"
      let ?s2 = "syncBatch rt (blockEnvs ev) ?start ?end ?s1"
      have sl: "syncLoop rt cfg (ev # evs) s =
          (if lastIndexedOf cfg s \<ge> latestHeight then syncLoop rt cfg evs ?s1
           else syncLoop rt cfg evs ?s2)"
        using False g Inr by (simp add: Let_def)
      have "ckptInv first cfg ?s2"
        using syncBatch_inv[OF i1(1), of ?start rt "blockEnvs ev" ?end] i1(2) by simp
      then show ?thesis
        unfolding sl using Cons.IH[of ?s1] Cons.IH[of ?s2] i1(1) by presburger
    qed
  qed
qed

text \<open>
  C5. Let the store satisfy \<open>ckptInv\<close> (an empty store does, and every state the sync loop
  reaches does). When \<open>processBlock\<close>, called for the height after the checkpoint as the
  loop calls it, returns without halting the engine, the checkpoint is that height and the
  stored block heights are exactly those from the first ingested height to the checkpoint:
  no block above it, no gap below it.
\<close>

theorem checkpoint_tracks_blocks:
  assumes "ckptInv first cfg s"
  shows "(\<forall>env s'. processBlock rt env (lastIndexedOf cfg s + 1) s = (Inr (), s') \<and> \<not> stopRequested s'
            \<longrightarrow> ckptExact first s' (lastIndexedOf cfg s + 1)) \<and>
         (\<forall>env r s'. processBlock rt env (lastIndexedOf cfg s + 1) s = (r, s') \<longrightarrow> ckptInv first cfg s') \<and>
         (\<forall>evs. ckptInv first cfg (snd (syncLoop rt cfg evs s)))"
  using processBlock_inv[OF assms refl] syncLoop_inv[OF assms] by blast


text \<open>The first block of a fresh chain, ingested into an empty store.\<close>

theorem checkpoint_tracks_blocks_witness:
  "ckptInv 1 cfg1 emptyEngine \<and>
   fst (processBlock demoRuntime env1 1 emptyEngine) = Inr () \<and>
   blockHeights (snd (processBlock demoRuntime env1 1 emptyEngine)) = [1] \<and>
   ckptExact 1 (snd (processBlock demoRuntime env1 1 emptyEngine)) 1"
proof -
  have inv: "ckptInv 1 cfg1 emptyEngine"
    by (simp add: ckptInv_def lastIndexedOf_def cfg1_def emptyEngine_def emptyStore_def blockHeights_def)
  have l: "lastIndexedOf cfg1 emptyEngine + 1 = 1"
    by (simp add: lastIndexedOf_def cfg1_def emptyEngine_def emptyStore_def)
  obtain r s' where run: "processBlock demoRuntime env1 1 emptyEngine = (r, s')"
    by (cases "processBlock demoRuntime env1 1 emptyEngine")
  have ev: "r = Inr ()" "\<not> stopRequested s'" "blockHeights s' = [1]"
    using run
    by (auto simp: processBlock_def processBlockTry_def linkageMismatch_eq linkageGuard_def
        env1_def bindS_def commitBlock_def transaction_def upsertBlock_def upsertIndexerState_def
        dbWrite_eq updateAccounts_def collectAddresses_def upsertRow_def proposerOf_def
        emptyEngine_def emptyStore_def blockHeights_def)
  from checkpoint_tracks_blocks[OF inv, of demoRuntime] l run ev
  have "ckptExact 1 s' 1" by auto
  then show ?thesis using inv run ev by simp
qed

subsection \<open>Re-running a committed height\<close>


lemma upsertTxs_Cons:
  "upsertTxs (tx # txs) rows = upsertTxs txs (upsertRow t_hash (t_hash tx) (\<lambda>r. tx) tx rows)"
  by (simp add: upsertTxs_def)


lemma upsertTx_keys:
  "map t_hash (upsertRow t_hash (t_hash tx) (\<lambda>r. tx) tx rows) =
    (if t_hash tx \<in> set (map t_hash rows) then map t_hash rows else map t_hash rows @ [t_hash tx])"
  by (rule upsertRow_keys) simp_all


lemma upsertTxs_keys_present:
  "t_hash ` set txs \<subseteq> set (map t_hash rows) \<Longrightarrow> map t_hash (upsertTxs txs rows) = map t_hash rows"
proof (induction txs arbitrary: rows)
  case Nil
  then show ?case by (simp add: upsertTxs_def)
next
  case (Cons tx txs)
  have k: "map t_hash (upsertRow t_hash (t_hash tx) (\<lambda>r. tx) tx rows) = map t_hash rows"
    using Cons.prems by (simp add: upsertTx_keys)
  show ?case unfolding upsertTxs_Cons using Cons.IH[of "upsertRow t_hash (t_hash tx) (\<lambda>r. tx) tx rows"]
      Cons.prems k by simp
qed





subsection \<open>The second ingestion\<close>















subsection \<open>Serialization of decoded data\<close>



















subsection \<open>The enrichment worker\<close>

lemma enrichRecord_ok:
  assumes "noStoreFailure env" "list_ex (\<lambda>r. z_id r = z_id x) tbl"
  shows "enrichRecord env x tbl = Inr (map (\<lambda>r. if z_id r = z_id x then attemptOn env x r else r) tbl)"
  using assms
  by (auto simp: enrichRecord_def enrichTry_def updateTransfer_def noStoreFailure_def attemptOn_def
      bindE_def Let_def split: sum.splits option.splits)

lemma z_id_attemptOn: "z_id (attemptOn env x r) = z_id r"
  by (simp add: attemptOn_def split: sum.splits option.splits)

lemma txByteCode_attemptOn: "txByteCode (attemptOn env x r) = txByteCode r"
  by (simp add: attemptOn_def split: sum.splits option.splits)

lemma same_id_same_row:
  "distinct (map z_id tbl) \<Longrightarrow> r \<in> set tbl \<Longrightarrow> x \<in> set tbl \<Longrightarrow> z_id r = z_id x \<Longrightarrow> r = x"
  by (meson distinct_map inj_onD)

lemma enrichBatch_map:
  assumes "noStoreFailure env"
  shows "distinct (map z_id tbl) \<Longrightarrow> distinct (map z_id sel) \<Longrightarrow> set sel \<subseteq> set tbl \<Longrightarrow>
    enrichBatch env sel tbl = map (\<lambda>r. if r \<in> set sel then attemptOn env r r else r) tbl"
proof (induction sel arbitrary: tbl)
  case Nil
  then show ?case by simp
next
  case (Cons x rest)
  let ?g = "\<lambda>r. if z_id r = z_id x then attemptOn env x r else r"
  let ?tbl1 = "map ?g tbl"
  have x: "x \<in> set tbl" using Cons.prems(3) by simp
  then have ex: "list_ex (\<lambda>r. z_id r = z_id x) tbl" by (auto simp: list_ex_iff)
  have step: "enrichRecord env x tbl = Inr ?tbl1"
    using enrichRecord_ok[OF assms ex] .
  have ids: "map z_id ?tbl1 = map z_id tbl"
    by (induction tbl) (simp_all add: z_id_attemptOn)
  have d1: "distinct (map z_id ?tbl1)" unfolding ids by (rule Cons.prems(1))
  have nx: "\<And>y. y \<in> set rest \<Longrightarrow> z_id y \<noteq> z_id x"
    using Cons.prems(2) by (auto simp: image_iff)
  have sub: "set rest \<subseteq> set ?tbl1"
  proof
    fix y assume y: "y \<in> set rest"
    then have "y \<in> set tbl" using Cons.prems(3) by auto
    then have "?g y \<in> ?g ` set tbl" by (rule imageI)
    moreover have "?g y = y" using nx[OF y] by simp
    ultimately show "y \<in> set ?tbl1" by simp
  qed
  have ih: "enrichBatch env rest ?tbl1 = map (\<lambda>r. if r \<in> set rest then attemptOn env r r else r) ?tbl1"
    using Cons.IH[OF d1 _ sub] Cons.prems(2) by simp
  have "map (\<lambda>r. if r \<in> set rest then attemptOn env r r else r) ?tbl1 =
      map (\<lambda>r. if r \<in> set (x # rest) then attemptOn env r r else r) tbl"
  proof -
    have "(if ?g r \<in> set rest then attemptOn env (?g r) (?g r) else ?g r) =
        (if r \<in> set (x # rest) then attemptOn env r r else r)" if r: "r \<in> set tbl" for r
    proof (cases "z_id r = z_id x")
      case True
      then have rx: "r = x" using same_id_same_row[OF Cons.prems(1) r x] by simp
      have "attemptOn env x x \<notin> set rest"
        using nx z_id_attemptOn by metis
      then show ?thesis using rx by simp
    next
      case False
      then have "r \<noteq> x" by auto
      then show ?thesis using False by simp
    qed
    then show ?thesis by (simp add: comp_def)
  qed
  then show ?case using step ih by simp
qed

lemma findPending_props:
  assumes "distinct (map z_id tbl)"
  shows "set (findPending tbl) \<subseteq> set tbl"
    and "distinct (map z_id (findPending tbl))"
    and "r \<in> set (findPending tbl) \<Longrightarrow> pendingWhere r"
    and "length tbl \<le> BATCH_SIZE \<Longrightarrow> r \<in> set tbl \<Longrightarrow> pendingWhere r \<Longrightarrow> r \<in> set (findPending tbl)"
proof -
  let ?f = "filter pendingWhere tbl"
  have s: "set (findPending tbl) \<subseteq> set (sort_key z_id ?f)"
    unfolding findPending_def by (rule set_take_subset)
  then show "set (findPending tbl) \<subseteq> set tbl" by auto
  have "distinct (map z_id ?f)" using assms by (rule distinct_map_filter)
  then have "distinct (map z_id (sort_key z_id ?f))"
    by (simp add: distinct_map)
  then show "distinct (map z_id (findPending tbl))"
    unfolding findPending_def take_map[symmetric] by (rule distinct_take)
  show "r \<in> set (findPending tbl) \<Longrightarrow> pendingWhere r" using s by auto
  show "length tbl \<le> BATCH_SIZE \<Longrightarrow> r \<in> set tbl \<Longrightarrow> pendingWhere r \<Longrightarrow> r \<in> set (findPending tbl)"
  proof -
    assume a: "length tbl \<le> BATCH_SIZE" "r \<in> set tbl" "pendingWhere r"
    have "length (sort_key z_id ?f) \<le> BATCH_SIZE"
      using a(1) length_filter_le[of pendingWhere tbl] by (simp del: length_filter_le)
    then have "findPending tbl = sort_key z_id ?f" by (simp add: findPending_def)
    then show ?thesis using a(2,3) by simp
  qed
qed

lemma enrichCycle_map:
  assumes "noStoreFailure env" "distinct (map z_id tbl)"
  shows "enrichCycle env tbl =
    map (\<lambda>r. if r \<in> set (findPending tbl) then attemptOn env r r else r) tbl"
proof -
  have "\<not> zkFails env FindPending" using assms(1) by (simp add: noStoreFailure_def)
  then show ?thesis
    unfolding enrichCycle_def
    using enrichBatch_map[OF assms(1) assms(2) findPending_props(2)[OF assms(2)]
        findPending_props(1)[OF assms(2)]]
    by simp
qed


lemma rowOf_map:
  assumes "\<And>r. z_id (g r) = z_id r"
  shows "rowOf (map g tbl) i = map_option g (rowOf tbl i)"
  unfolding rowOf_def using assms by (induction tbl) auto

lemma rowOf_Some: "rowOf tbl i = Some r \<Longrightarrow> r \<in> set tbl \<and> z_id r = i"
  unfolding rowOf_def by (auto simp: find_Some_iff)

lemma enrichCycle_row:
  assumes "noStoreFailure env" "distinct (map z_id tbl)" "rowOf tbl i = Some r"
  shows "rowOf (enrichCycle env tbl) i =
    Some (if r \<in> set (findPending tbl) then attemptOn env r r else r)"
  unfolding enrichCycle_map[OF assms(1,2)]
  by (subst rowOf_map) (simp_all add: z_id_attemptOn assms(3))

lemma enrichCycle_ids:
  assumes "noStoreFailure env" "distinct (map z_id tbl)"
  shows "map z_id (enrichCycle env tbl) = map z_id tbl"
  unfolding enrichCycle_map[OF assms] by (simp add: comp_def z_id_attemptOn)

lemma enrichCycles_snoc:
  "enrichCycles (envs @ [env]) tbl = enrichCycle env (enrichCycles envs tbl)"
  by (induction envs arbitrary: tbl) simp_all

lemma enrichCycles_ids:
  "list_all noStoreFailure envs \<Longrightarrow> distinct (map z_id tbl) \<Longrightarrow>
   map z_id (enrichCycles envs tbl) = map z_id tbl"
proof (induction envs arbitrary: tbl)
  case Nil
  then show ?case by simp
next
  case (Cons env envs)
  have i: "map z_id (enrichCycle env tbl) = map z_id tbl"
    using Cons.prems enrichCycle_ids by simp
  then have "map z_id (enrichCycles envs (enrichCycle env tbl)) = map z_id (enrichCycle env tbl)"
    using Cons.prems by (intro Cons.IH) simp_all
  then show ?case using i by simp
qed

lemma attemptOn_failure:
  assumes "decodeFails env (txByteCode r)"
  shows "decodeAttempts (attemptOn env r r) = decodeAttempts r + 1 \<and>
    decodeStatus (attemptOn env r r) = statusAfter (decodeAttempts r + 1)"
  using assms by (auto simp: decodeFails_def attemptOn_def split: sum.splits option.splits)

text \<open>The row of a record whose decoding keeps failing, after any number of cycles.\<close>

lemma failing_row:
  assumes d: "distinct (map z_id tbl)" and r0: "rowOf tbl i = Some r0"
    and fresh: "decodeStatus r0 = Pending" "decodeAttempts r0 = 0"
  shows "list_all noStoreFailure envs \<Longrightarrow>
    list_all (\<lambda>env. decodeFails env (txByteCode r0)) envs \<Longrightarrow>
    \<exists>r. rowOf (enrichCycles envs tbl) i = Some r \<and> txByteCode r = txByteCode r0 \<and>
      0 \<le> decodeAttempts r \<and> decodeAttempts r \<le> min (int (length envs)) MAX_ATTEMPTS \<and>
      decodeStatus r = statusAfter (decodeAttempts r) \<and>
      (length tbl \<le> BATCH_SIZE \<longrightarrow> decodeAttempts r = min (int (length envs)) MAX_ATTEMPTS)"
proof (induction envs rule: rev_induct)
  case Nil
  then show ?case using r0 fresh by (simp add: statusAfter_def MAX_ATTEMPTS_def)
next
  case (snoc env envs)
  let ?T = "enrichCycles envs tbl"
  let ?n = "int (length envs)"
  from snoc obtain r where r: "rowOf ?T i = Some r" "txByteCode r = txByteCode r0"
    "0 \<le> decodeAttempts r" "decodeAttempts r \<le> min ?n MAX_ATTEMPTS"
    "decodeStatus r = statusAfter (decodeAttempts r)"
    "length tbl \<le> BATCH_SIZE \<longrightarrow> decodeAttempts r = min ?n MAX_ATTEMPTS"
    by auto
  have ns: "noStoreFailure env" and df: "decodeFails env (txByteCode r)"
    using snoc.prems r(2) by simp_all
  have ids: "map z_id ?T = map z_id tbl"
    using snoc.prems(1) d by (intro enrichCycles_ids) simp_all
  then have dT: "distinct (map z_id ?T)" using d by simp
  have len: "length ?T = length tbl" using ids by (metis length_map)
  let ?r' = "if r \<in> set (findPending ?T) then attemptOn env r r else r"
  have row: "rowOf (enrichCycles (envs @ [env]) tbl) i = Some ?r'"
    unfolding enrichCycles_snoc by (rule enrichCycle_row[OF ns dT r(1)])
  have pw: "pendingWhere r \<longleftrightarrow> decodeAttempts r < MAX_ATTEMPTS"
    using r(5) by (simp add: pendingWhere_def statusAfter_def)
  show ?case
  proof (cases "r \<in> set (findPending ?T)")
    case True
    then have lt: "decodeAttempts r < MAX_ATTEMPTS"
      using findPending_props(3)[OF dT] pw by blast
    have a: "decodeAttempts ?r' = decodeAttempts r + 1"
      "decodeStatus ?r' = statusAfter (decodeAttempts r + 1)"
      using True attemptOn_failure[OF df] by simp_all
    have "txByteCode ?r' = txByteCode r0"
      using r(2) by (simp add: txByteCode_attemptOn)
    moreover have "0 \<le> decodeAttempts ?r'" "decodeAttempts ?r' \<le> min (int (length (envs @ [env]))) MAX_ATTEMPTS"
      using a(1) r(3,4) lt by simp_all
    moreover have "decodeStatus ?r' = statusAfter (decodeAttempts ?r')"
      using a by simp
    moreover have "length tbl \<le> BATCH_SIZE \<longrightarrow>
        decodeAttempts ?r' = min (int (length (envs @ [env]))) MAX_ATTEMPTS"
      using a(1) r(6) lt by auto
    ultimately show ?thesis using row by blast
  next
    case False
    have small: "length tbl \<le> BATCH_SIZE \<Longrightarrow> decodeAttempts r = MAX_ATTEMPTS"
    proof -
      assume s: "length tbl \<le> BATCH_SIZE"
      have "\<not> pendingWhere r"
        using findPending_props(4)[OF dT, of r] s len rowOf_Some[OF r(1)] False by auto
      then show ?thesis using pw r(4) by simp
    qed
    have "decodeAttempts r \<le> min (int (length (envs @ [env]))) MAX_ATTEMPTS"
      using r(4) by simp
    moreover have "length tbl \<le> BATCH_SIZE \<longrightarrow>
        decodeAttempts r = min (int (length (envs @ [env]))) MAX_ATTEMPTS"
      using small r(4) by auto
    ultimately show ?thesis using row False r(2,3,5) by auto
  qed
qed


text \<open>
  The query selects a record exactly when the \<open>where\<close> clause holds of it and its position
  in the order by id is below \<open>BATCH_SIZE\<close>.
\<close>

lemma take_sorted_mem:
  "sorted (map f xs) \<Longrightarrow> distinct (map f xs) \<Longrightarrow> x \<in> set xs \<Longrightarrow>
   (x \<in> set (take n xs) \<longleftrightarrow> length (filter (\<lambda>y. f y < f x) xs) < n)"
  for f :: "'a \<Rightarrow> int"
proof (induction xs arbitrary: n)
  case Nil
  then show ?case by simp
next
  case (Cons a xs)
  show ?case
  proof (cases n)
    case 0
    then show ?thesis by simp
  next
    case (Suc m)
    show ?thesis
    proof (cases "x = a")
      case True
      have "filter (\<lambda>y. f y < f a) xs = []"
        using Cons.prems(1) by (auto simp: filter_empty_conv)
      then show ?thesis using True Suc by simp
    next
      case False
      then have x: "x \<in> set xs" using Cons.prems(3) by simp
      have "f a \<le> f x" using Cons.prems(1) x by auto
      moreover have "f a \<noteq> f x" using Cons.prems(2) x by auto
      ultimately have lt: "f a < f x" by simp
      have "x \<in> set (take m xs) \<longleftrightarrow> length (filter (\<lambda>y. f y < f x) xs) < m"
        using Cons.IH[of m] Cons.prems x by simp
      then show ?thesis using False Suc lt by simp
    qed
  qed
qed

lemma findPending_iff:
  assumes d: "distinct (map z_id tbl)" and x: "x \<in> set tbl"
  shows "x \<in> set (findPending tbl) \<longleftrightarrow> pendingWhere x \<and> olderPending tbl (z_id x) < BATCH_SIZE"
proof (cases "pendingWhere x")
  case False
  then have "x \<notin> set (findPending tbl)"
    using findPending_props(3)[OF d] by blast
  then show ?thesis using False by simp
next
  case True
  let ?F = "filter pendingWhere tbl"
  let ?S = "sort_key z_id ?F"
  have xs: "x \<in> set ?S" using x True by simp
  have "distinct (map z_id ?F)" using d by (rule distinct_map_filter)
  then have ds: "distinct (map z_id ?S)" by (simp add: distinct_map)
  have so: "sorted (map z_id ?S)" by (rule sorted_sort_key)
  have "length (filter (\<lambda>y. z_id y < z_id x) ?S) = length (filter (\<lambda>y. z_id y < z_id x) ?F)"
    by (simp add: filter_sort)
  also have "\<dots> = olderPending tbl (z_id x)"
    by (simp add: olderPending_def conj_commute)
  finally have l: "length (filter (\<lambda>y. z_id y < z_id x) ?S) = olderPending tbl (z_id x)" .
  show ?thesis
    unfolding findPending_def using take_sorted_mem[OF so ds xs, of BATCH_SIZE] l True by simp
qed

text \<open>
  An attempt lowers what remains for the record. A cycle never raises the backlog, and it
  lowers the backlog up to an id as long as the record with that id is found by the query.
\<close>

lemma remaining_attemptOn: "pendingWhere x \<Longrightarrow> remaining (attemptOn env x x) < remaining x"
  by (auto simp: remaining_def attemptOn_def pendingWhere_def statusAfter_def MAX_ATTEMPTS_def
      split: sum.splits option.splits)

lemma remaining_pos: "pendingWhere x \<Longrightarrow> 0 < remaining x"
  by (simp add: remaining_def pendingWhere_def)

lemma sum_list_less:
  fixes f g :: "'a \<Rightarrow> nat"
  assumes "\<forall>x \<in> set xs. f x \<le> g x" "\<exists>x \<in> set xs. f x < g x"
  shows "sum_list (map f xs) < sum_list (map g xs)"
  using assms
proof (induction xs)
  case Nil
  then show ?case by simp
next
  case (Cons a xs)
  show ?case
  proof (cases "f a < g a")
    case True
    have "sum_list (map f xs) \<le> sum_list (map g xs)"
      using Cons.prems(1) by (intro sum_list_mono) simp
    then show ?thesis using True by simp
  next
    case False
    then have "\<exists>x \<in> set xs. f x < g x" using Cons.prems(2) by auto
    then have "sum_list (map f xs) < sum_list (map g xs)"
      using Cons.IH Cons.prems(1) by simp
    moreover have "f a \<le> g a" using Cons.prems(1) by simp
    ultimately show ?thesis by simp
  qed
qed

lemma olderPending_mono: "i \<le> j \<Longrightarrow> olderPending tbl i \<le> olderPending tbl j"
  unfolding olderPending_def by (induction tbl) auto

lemma filter_map_ids:
  assumes "\<And>x. z_id (g x) = z_id x"
  shows "filter (\<lambda>x. z_id x \<le> i) (map g xs) = map g (filter (\<lambda>x. z_id x \<le> i) xs)"
  by (induction xs) (simp_all add: assms)

lemma backlog_cycle:
  assumes ns: "noStoreFailure env" and d: "distinct (map z_id tbl)"
  shows "backlog (enrichCycle env tbl) i \<le> backlog tbl i"
    and "rowOf tbl i = Some r \<Longrightarrow> pendingWhere r \<Longrightarrow> backlog (enrichCycle env tbl) i < backlog tbl i"
proof -
  let ?sel = "findPending tbl"
  let ?g = "\<lambda>x. if x \<in> set ?sel then attemptOn env x x else x"
  let ?F = "filter (\<lambda>x. z_id x \<le> i) tbl"
  have cyc: "enrichCycle env tbl = map ?g tbl" by (rule enrichCycle_map[OF ns d])
  have fm: "filter (\<lambda>x. z_id x \<le> i) (map ?g tbl) = map ?g ?F"
    by (rule filter_map_ids) (simp add: z_id_attemptOn)
  have b': "backlog (enrichCycle env tbl) i = sum_list (map (\<lambda>x. remaining (?g x)) ?F)"
    unfolding backlog_def cyc fm by (simp add: comp_def)
  have le: "\<forall>x \<in> set ?F. remaining (?g x) \<le> remaining x"
    using findPending_props(3)[OF d] remaining_attemptOn[of _ env] by (auto simp: less_imp_le)
  have bt: "backlog tbl i = sum_list (map remaining ?F)" by (simp add: backlog_def)
  have "sum_list (map (\<lambda>x. remaining (?g x)) ?F) \<le> sum_list (map remaining ?F)"
    using le by (intro sum_list_mono) simp
  then show "backlog (enrichCycle env tbl) i \<le> backlog tbl i"
    by (simp only: b' bt)
  show "backlog (enrichCycle env tbl) i < backlog tbl i" if r: "rowOf tbl i = Some r" and p: "pendingWhere r"
  proof -
    have rt: "r \<in> set tbl" "z_id r = i" using rowOf_Some[OF r] by simp_all
    have "\<exists>y \<in> set ?sel. z_id y \<le> i"
    proof (cases "r \<in> set ?sel")
      case True
      then show ?thesis using rt(2) by auto
    next
      case False
      then have big: "\<not> olderPending tbl i < BATCH_SIZE"
        using findPending_iff[OF d rt(1)] p rt(2) by simp
      have "filter pendingWhere tbl \<noteq> []" using rt(1) p by (auto simp: filter_empty_conv)
      then have "sort_key z_id (filter pendingWhere tbl) \<noteq> []"
        by (metis length_sort length_0_conv)
      then have "?sel \<noteq> []" by (simp add: findPending_def BATCH_SIZE_def)
      then obtain y where y: "y \<in> set ?sel" by (cases ?sel) auto
      have yt: "y \<in> set tbl" using y findPending_props(1)[OF d] by blast
      have "olderPending tbl (z_id y) < BATCH_SIZE"
        using findPending_iff[OF d yt] y by simp
      then have "\<not> i \<le> z_id y"
        using big olderPending_mono[of i "z_id y" tbl] by linarith
      then have "z_id y \<le> i" by simp
      then show ?thesis using y by blast
    qed
    then obtain y where y: "y \<in> set ?sel" "z_id y \<le> i" by blast
    have yt: "y \<in> set tbl" using y(1) findPending_props(1)[OF d] by blast
    have "y \<in> set ?F" using yt y(2) by simp
    moreover have "remaining (?g y) < remaining y"
      using y(1) findPending_props(3)[OF d y(1)] remaining_attemptOn by simp
    ultimately have "\<exists>x \<in> set ?F. remaining (?g x) < remaining x" by blast
    then have "sum_list (map (\<lambda>x. remaining (?g x)) ?F) < sum_list (map remaining ?F)"
      using le by (intro sum_list_less) simp_all
    then show ?thesis by (simp only: b' bt)
  qed
qed

lemma backlog_row: "rowOf tbl i = Some r \<Longrightarrow> remaining r \<le> backlog tbl i"
proof -
  assume r: "rowOf tbl i = Some r"
  have "r \<in> set (filter (\<lambda>x. z_id x \<le> i) tbl)" using rowOf_Some[OF r] by simp
  then have "remaining r \<in> set (map remaining (filter (\<lambda>x. z_id x \<le> i) tbl))"
    by (simp only: set_map) (rule imageI)
  then show ?thesis unfolding backlog_def by (rule member_le_sum_list) simp
qed

lemma enrichCycles_append:
  "enrichCycles (envs @ ss) tbl = enrichCycles ss (enrichCycles envs tbl)"
  by (induction envs arbitrary: tbl) simp_all

lemma enrichCycle_row_back:
  assumes ns: "noStoreFailure env" and d: "distinct (map z_id tbl)"
    and r: "rowOf (enrichCycle env tbl) i = Some r"
  shows "\<exists>q. rowOf tbl i = Some q \<and> r = (if q \<in> set (findPending tbl) then attemptOn env q q else q)"
proof -
  have "rowOf (enrichCycle env tbl) i =
      map_option (\<lambda>x. if x \<in> set (findPending tbl) then attemptOn env x x else x) (rowOf tbl i)"
    unfolding enrichCycle_map[OF ns d] by (rule rowOf_map) (simp add: z_id_attemptOn)
  then show ?thesis using r by (cases "rowOf tbl i") auto
qed

text \<open>While a record is found by the query, every cycle takes one attempt off the backlog.\<close>

lemma backlog_cycles:
  assumes d: "distinct (map z_id tbl)"
  shows "list_all noStoreFailure envs \<Longrightarrow> rowOf (enrichCycles envs tbl) i = Some r \<Longrightarrow>
    pendingWhere r \<Longrightarrow> backlog (enrichCycles envs tbl) i + length envs \<le> backlog tbl i"
proof (induction envs arbitrary: r rule: rev_induct)
  case Nil
  then show ?case by simp
next
  case (snoc env envs)
  let ?T = "enrichCycles envs tbl"
  have ns: "noStoreFailure env" "list_all noStoreFailure envs" using snoc.prems(1) by simp_all
  have ids: "map z_id ?T = map z_id tbl" using ns(2) d by (rule enrichCycles_ids)
  then have dT: "distinct (map z_id ?T)" using d by simp
  have r': "rowOf (enrichCycle env ?T) i = Some r"
    using snoc.prems(2) by (simp add: enrichCycles_snoc)
  from enrichCycle_row_back[OF ns(1) dT r'] obtain q where
    q: "rowOf ?T i = Some q" "r = (if q \<in> set (findPending ?T) then attemptOn env q q else q)"
    by blast
  have pq: "pendingWhere q"
    using q(2) snoc.prems(3) findPending_props(3)[OF dT, of q] by (cases "q \<in> set (findPending ?T)") simp_all
  have "backlog ?T i + length envs \<le> backlog tbl i"
    using snoc.IH[OF ns(2) q(1) pq] .
  moreover have "backlog (enrichCycle env ?T) i < backlog ?T i"
    using backlog_cycle(2)[OF ns(1) dT q(1) pq] .
  ultimately show ?case by (simp add: enrichCycles_snoc)
qed

lemma backlog_done:
  assumes d: "distinct (map z_id tbl)" and ns: "list_all noStoreFailure envs"
    and r: "rowOf (enrichCycles envs tbl) i = Some r" and n: "backlog tbl i \<le> length envs"
  shows "\<not> pendingWhere r"
proof
  assume p: "pendingWhere r"
  have "backlog (enrichCycles envs tbl) i + length envs \<le> backlog tbl i"
    using backlog_cycles[OF d ns r p] .
  then have "backlog (enrichCycles envs tbl) i = 0" using n by simp
  moreover have "0 < remaining r" using p by (rule remaining_pos)
  moreover have "remaining r \<le> backlog (enrichCycles envs tbl) i" using r by (rule backlog_row)
  ultimately show False by simp
qed

lemma attemptOn_ok:
  assumes "decodeOk env (txByteCode r)"
  shows "decodeAttempts (attemptOn env r r) = decodeAttempts r + 1 \<and>
    decodeStatus (attemptOn env r r) = Ok \<and> lastDecodeError (attemptOn env r r) = None"
  using assms by (auto simp: decodeOk_def attemptOn_def split: sum.splits option.splits)

text \<open>A record whose decoding succeeds is left as it is until it is selected, and is then done.\<close>

lemma succeeding_row:
  assumes d: "distinct (map z_id tbl)" and r: "rowOf tbl i = Some r"
  shows "list_all noStoreFailure ss \<Longrightarrow> list_all (\<lambda>env. decodeOk env (txByteCode r)) ss \<Longrightarrow>
    \<exists>r'. rowOf (enrichCycles ss tbl) i = Some r' \<and>
      (r' = r \<or> decodeStatus r' = Ok \<and> decodeAttempts r' = decodeAttempts r + 1 \<and>
                 lastDecodeError r' = None)"
proof (induction ss rule: rev_induct)
  case Nil
  then show ?case using r by simp
next
  case (snoc env ss)
  let ?T = "enrichCycles ss tbl"
  have ns: "noStoreFailure env" "list_all noStoreFailure ss" using snoc.prems(1) by simp_all
  have ok: "decodeOk env (txByteCode r)" using snoc.prems(2) by simp
  from snoc obtain r1 where r1: "rowOf ?T i = Some r1"
    "r1 = r \<or> decodeStatus r1 = Ok \<and> decodeAttempts r1 = decodeAttempts r + 1 \<and> lastDecodeError r1 = None"
    by auto
  have ids: "map z_id ?T = map z_id tbl" using ns(2) d by (rule enrichCycles_ids)
  then have dT: "distinct (map z_id ?T)" using d by simp
  let ?r' = "if r1 \<in> set (findPending ?T) then attemptOn env r1 r1 else r1"
  have row: "rowOf (enrichCycles (ss @ [env]) tbl) i = Some ?r'"
    unfolding enrichCycles_snoc by (rule enrichCycle_row[OF ns(1) dT r1(1)])
  show ?case
  proof (cases "r1 \<in> set (findPending ?T)")
    case False
    then show ?thesis using row r1(2) by auto
  next
    case True
    then have "pendingWhere r1" using findPending_props(3)[OF dT] by blast
    then have "decodeStatus r1 \<noteq> Ok" by (auto simp: pendingWhere_def)
    then have "r1 = r" using r1(2) by blast
    then show ?thesis using row True attemptOn_ok[OF ok] by auto
  qed
qed

text \<open>
  C4. Take a record that is pending with no attempt made, in a table of any size with distinct
  ids and a store that accepts the worker's updates, and let every decode call for it return
  \<open>null\<close> or throw. After any number of cycles its attempts are at most 5 and at most the
  number of cycles, and it is \<open>failed\<close> exactly when the attempts are 5. A cycle selects it
  exactly when its attempts are below 5 and fewer than \<open>BATCH_SIZE\<close> records found by the
  query have a smaller id. It does reach \<open>failed\<close> with 5 attempts: at the latest after as
  many cycles as the backlog of the records up to its id holds attempts; in a table of at most
  \<open>BATCH_SIZE\<close> rows the attempts after \<open>n\<close> cycles are \<open>min n 5\<close>. When the decode
  calls for it succeed from some cycle on, before it has failed (after 4 failures, say), it
  ends \<open>ok\<close> with one attempt more (5), no error, and is not selected again.
\<close>

theorem bounded_retries:
  assumes d: "distinct (map z_id tbl)" and r0: "rowOf tbl i = Some r0"
    and fresh: "decodeStatus r0 = Pending" "decodeAttempts r0 = 0"
    and ns: "list_all noStoreFailure envs"
    and df: "list_all (\<lambda>env. decodeFails env (txByteCode r0)) envs"
  shows "\<exists>r. rowOf (enrichCycles envs tbl) i = Some r \<and>
      0 \<le> decodeAttempts r \<and> decodeAttempts r \<le> min (int (length envs)) MAX_ATTEMPTS \<and>
      decodeStatus r = (if decodeAttempts r < MAX_ATTEMPTS then Pending else Failed) \<and>
      (r \<in> set (findPending (enrichCycles envs tbl)) \<longleftrightarrow>
         decodeAttempts r < MAX_ATTEMPTS \<and> olderPending (enrichCycles envs tbl) i < BATCH_SIZE) \<and>
      (backlog tbl i \<le> length envs \<longrightarrow> decodeAttempts r = MAX_ATTEMPTS \<and> decodeStatus r = Failed) \<and>
      (length tbl \<le> BATCH_SIZE \<longrightarrow> decodeAttempts r = min (int (length envs)) MAX_ATTEMPTS) \<and>
      (decodeAttempts r < MAX_ATTEMPTS \<longrightarrow>
         (\<forall>ss. list_all noStoreFailure ss \<and> list_all (\<lambda>env. decodeOk env (txByteCode r0)) ss \<and>
               backlog (enrichCycles envs tbl) i \<le> length ss \<longrightarrow>
           (\<exists>r'. rowOf (enrichCycles (envs @ ss) tbl) i = Some r' \<and>
                 decodeStatus r' = Ok \<and> decodeAttempts r' = decodeAttempts r + 1 \<and>
                 lastDecodeError r' = None \<and>
                 r' \<notin> set (findPending (enrichCycles (envs @ ss) tbl)))))"
proof -
  let ?T = "enrichCycles envs tbl"
  from failing_row[OF d r0 fresh ns df] obtain r where r: "rowOf ?T i = Some r"
    "txByteCode r = txByteCode r0"
    "0 \<le> decodeAttempts r" "decodeAttempts r \<le> min (int (length envs)) MAX_ATTEMPTS"
    "decodeStatus r = statusAfter (decodeAttempts r)"
    "length tbl \<le> BATCH_SIZE \<longrightarrow> decodeAttempts r = min (int (length envs)) MAX_ATTEMPTS"
    by blast
  have st: "decodeStatus r = (if decodeAttempts r < MAX_ATTEMPTS then Pending else Failed)"
    using r(5) by (simp add: statusAfter_def)
  have pw: "pendingWhere r \<longleftrightarrow> decodeAttempts r < MAX_ATTEMPTS"
    using st by (simp add: pendingWhere_def)
  have ids: "map z_id ?T = map z_id tbl"
    using ns d by (rule enrichCycles_ids)
  then have dT: "distinct (map z_id ?T)" using d by simp
  have rT: "r \<in> set ?T" "z_id r = i" using rowOf_Some[OF r(1)] by simp_all
  have sel: "r \<in> set (findPending ?T) \<longleftrightarrow>
      decodeAttempts r < MAX_ATTEMPTS \<and> olderPending ?T i < BATCH_SIZE"
    using findPending_iff[OF dT rT(1)] pw rT(2) by simp
  have live: "decodeAttempts r = MAX_ATTEMPTS \<and> decodeStatus r = Failed"
    if n: "backlog tbl i \<le> length envs"
  proof -
    have "\<not> pendingWhere r" using backlog_done[OF d ns r(1) n] .
    then have "decodeAttempts r = MAX_ATTEMPTS" using pw r(4) by simp
    then show ?thesis using st by simp
  qed
  have ok: "\<exists>r'. rowOf (enrichCycles (envs @ ss) tbl) i = Some r' \<and>
                 decodeStatus r' = Ok \<and> decodeAttempts r' = decodeAttempts r + 1 \<and>
                 lastDecodeError r' = None \<and>
                 r' \<notin> set (findPending (enrichCycles (envs @ ss) tbl))"
    if lt: "decodeAttempts r < MAX_ATTEMPTS"
      and ss: "list_all noStoreFailure ss" "list_all (\<lambda>env. decodeOk env (txByteCode r0)) ss"
        "backlog ?T i \<le> length ss" for ss
  proof -
    let ?U = "enrichCycles ss ?T"
    have p: "pendingWhere r" using pw lt by simp
    have ss2: "list_all (\<lambda>env. decodeOk env (txByteCode r)) ss" using ss(2) r(2) by simp
    from succeeding_row[OF dT r(1) ss(1) ss2] obtain r' where r': "rowOf ?U i = Some r'"
      "r' = r \<or> decodeStatus r' = Ok \<and> decodeAttempts r' = decodeAttempts r + 1 \<and>
                 lastDecodeError r' = None"
      by blast
    have np: "\<not> pendingWhere r'" using backlog_done[OF dT ss(1) r'(1) ss(3)] .
    then have "r' \<noteq> r" using p by blast
    then have fin: "decodeStatus r' = Ok" "decodeAttempts r' = decodeAttempts r + 1"
      "lastDecodeError r' = None"
      using r'(2) by simp_all
    have "map z_id ?U = map z_id ?T" using ss(1) dT by (rule enrichCycles_ids)
    then have dU: "distinct (map z_id ?U)" using dT by simp
    have "r' \<notin> set (findPending ?U)" using findPending_props(3)[OF dU] np by blast
    then show ?thesis using r'(1) fin by (simp add: enrichCycles_append)
  qed
  show ?thesis
    using r(1,3,4,6) st sel live ok by blast
qed

text \<open>The backlog is at most 5 attempts for each record up to the id.\<close>

lemma backlog_bound:
  "list_all (\<lambda>r. 0 \<le> decodeAttempts r) tbl \<Longrightarrow>
   backlog tbl i \<le> 5 * length (filter (\<lambda>r. z_id r \<le> i) tbl)"
  unfolding backlog_def
  by (induction tbl) (auto simp: remaining_def MAX_ATTEMPTS_def)

text \<open>One record after four failing cycles.\<close>

lemma four_failures:
  "enrichCycles [failEnv, failEnv, failEnv, failEnv] [demoTransfer] =
     [demoTransfer\<lparr>decodeAttempts := 4, lastDecodeError := Some ''Decode API returned null''\<rparr>]"
  by (simp add: enrichCycle_def findPending_def pendingWhere_def BATCH_SIZE_def MAX_ATTEMPTS_def
      enrichRecord_def enrichTry_def updateTransfer_def statusAfter_def bindE_def failEnv_def
      demoTransfer_def)

text \<open>
  In the table of 22 the first batch holds the records 1 to 20, not 21 and 22, and record 22
  is failed after 110 cycles; one record alone: four, five and seven failing cycles, and
  four failures followed by a success.
\<close>

theorem bounded_retries_witness:
  "length demoTable = 22 \<and> olderPending demoTable 22 = 21 \<and> backlog demoTable 22 = 110 \<and>
   demoRow 22 \<notin> set (findPending demoTable) \<and>
   demoRow 21 \<notin> set (findPending demoTable) \<and>
   demoRow 20 \<in> set (findPending demoTable) \<and>
   map_option decodeAttempts (rowOf (enrichCycles (replicate 110 failEnv) demoTable) 22) = Some 5 \<and>
   map_option decodeStatus (rowOf (enrichCycles (replicate 110 failEnv) demoTable) 22) = Some Failed \<and>
   map_option decodeAttempts (rowOf (enrichCycles [failEnv, failEnv, failEnv, failEnv] [demoTransfer]) 7) = Some 4 \<and>
   map_option decodeStatus (rowOf (enrichCycles [failEnv, failEnv, failEnv, failEnv] [demoTransfer]) 7) = Some Pending \<and>
   map_option decodeAttempts
     (rowOf (enrichCycles [failEnv, failEnv, failEnv, failEnv, failEnv] [demoTransfer]) 7) = Some 5 \<and>
   map_option decodeStatus
     (rowOf (enrichCycles [failEnv, failEnv, failEnv, failEnv, failEnv] [demoTransfer]) 7) = Some Failed \<and>
   map_option decodeAttempts
     (rowOf (enrichCycles [failEnv, failEnv, failEnv, failEnv, failEnv, failEnv, failEnv] [demoTransfer]) 7) = Some 5 \<and>
   map_option decodeStatus
     (rowOf (enrichCycles ([failEnv, failEnv, failEnv, failEnv] @ [okEnv]) [demoTransfer]) 7) = Some Ok \<and>
   map_option decodeAttempts
     (rowOf (enrichCycles ([failEnv, failEnv, failEnv, failEnv] @ [okEnv]) [demoTransfer]) 7) = Some 5 \<and>
   map_option lastDecodeError
     (rowOf (enrichCycles ([failEnv, failEnv, failEnv, failEnv] @ [okEnv]) [demoTransfer]) 7) = Some None"
proof -
  have f: "noStoreFailure failEnv" "decodeFails failEnv bc" for bc
    by (simp_all add: noStoreFailure_def decodeFails_def failEnv_def)
  have o: "noStoreFailure okEnv" "decodeOk okEnv bc" for bc
    by (simp_all add: noStoreFailure_def decodeOk_def okEnv_def)
  have fs: "list_all noStoreFailure (replicate n failEnv)"
    "list_all (\<lambda>env. decodeFails env bc) (replicate n failEnv)" for n bc
    using f by (simp_all add: list_all_iff)
  have dt: "distinct (map z_id demoTable)"
    by (simp add: demoTable_def demoRow_def)
  have len: "length demoTable = 22" by (simp add: demoTable_def)
  have row22: "rowOf demoTable 22 = Some (demoRow 22)"
    by (simp add: rowOf_def demoTable_def demoRow_def)
  have row21: "rowOf demoTable 21 = Some (demoRow 21)"
    by (simp add: rowOf_def demoTable_def demoRow_def)
  have row20: "rowOf demoTable 20 = Some (demoRow 20)"
    by (simp add: rowOf_def demoTable_def demoRow_def)
  have fresh: "decodeStatus (demoRow k) = Pending" "decodeAttempts (demoRow k) = 0" for k
    by (simp_all add: demoRow_def demoTransfer_def)
  have op22: "olderPending demoTable 22 = 21"
    by (simp add: olderPending_def demoTable_def demoRow_def pendingWhere_def demoTransfer_def
        MAX_ATTEMPTS_def)
  have op21: "olderPending demoTable 21 = 20"
    by (simp add: olderPending_def demoTable_def demoRow_def pendingWhere_def demoTransfer_def
        MAX_ATTEMPTS_def)
  have op20: "olderPending demoTable 20 = 19"
    by (simp add: olderPending_def demoTable_def demoRow_def pendingWhere_def demoTransfer_def
        MAX_ATTEMPTS_def)
  have bl: "backlog demoTable 22 = 110"
    by (simp add: backlog_def remaining_def demoTable_def demoRow_def pendingWhere_def
        demoTransfer_def MAX_ATTEMPTS_def)
  from bounded_retries[OF dt row22 fresh, of "[]"] op22
  have n22: "demoRow 22 \<notin> set (findPending demoTable)"
    by (simp add: row22 BATCH_SIZE_def)
  from bounded_retries[OF dt row21 fresh, of "[]"] op21
  have n21: "demoRow 21 \<notin> set (findPending demoTable)"
    by (simp add: row21 BATCH_SIZE_def)
  from bounded_retries[OF dt row20 fresh, of "[]"] op20 fresh[of 20]
  have s20: "demoRow 20 \<in> set (findPending demoTable)"
    by (simp add: row20 BATCH_SIZE_def MAX_ATTEMPTS_def)
  from bounded_retries[OF dt row22 fresh fs, of 110] bl
  obtain r where "rowOf (enrichCycles (replicate 110 failEnv) demoTable) 22 = Some r"
    "decodeAttempts r = 5" "decodeStatus r = Failed"
    by (auto simp: MAX_ATTEMPTS_def)
  note big = this
  have d: "distinct (map z_id [demoTransfer])" by simp
  have r0: "rowOf [demoTransfer] 7 = Some demoTransfer"
    by (simp add: rowOf_def demoTransfer_def)
  have fr: "decodeStatus demoTransfer = Pending" "decodeAttempts demoTransfer = 0"
    by (simp_all add: demoTransfer_def)
  have small: "length [demoTransfer] \<le> BATCH_SIZE" by (simp add: BATCH_SIZE_def)
  note t = bounded_retries[OF d r0 fr]
  have 4: "list_all noStoreFailure [failEnv, failEnv, failEnv, failEnv]"
    "list_all (\<lambda>env. decodeFails env (txByteCode demoTransfer)) [failEnv, failEnv, failEnv, failEnv]"
    using f by simp_all
  have 5: "list_all noStoreFailure [failEnv, failEnv, failEnv, failEnv, failEnv]"
    "list_all (\<lambda>env. decodeFails env (txByteCode demoTransfer)) [failEnv, failEnv, failEnv, failEnv, failEnv]"
    using f by simp_all
  have 7: "list_all noStoreFailure [failEnv, failEnv, failEnv, failEnv, failEnv, failEnv, failEnv]"
    "list_all (\<lambda>env. decodeFails env (txByteCode demoTransfer))
       [failEnv, failEnv, failEnv, failEnv, failEnv, failEnv, failEnv]"
    using f by simp_all
  have b4: "backlog (enrichCycles [failEnv, failEnv, failEnv, failEnv] [demoTransfer]) 7 \<le> length [okEnv]"
    unfolding four_failures
    by (simp add: backlog_def remaining_def pendingWhere_def demoTransfer_def MAX_ATTEMPTS_def)
  have oks: "list_all noStoreFailure [okEnv]"
    "list_all (\<lambda>env. decodeOk env (txByteCode demoTransfer)) [okEnv]"
    using o by simp_all
  from t[OF 4] obtain r4 where r4:
    "rowOf (enrichCycles [failEnv, failEnv, failEnv, failEnv] [demoTransfer]) 7 = Some r4"
    "length [demoTransfer] \<le> BATCH_SIZE \<longrightarrow>
       decodeAttempts r4 = min (int (length [failEnv, failEnv, failEnv, failEnv])) MAX_ATTEMPTS"
    "decodeStatus r4 = (if decodeAttempts r4 < MAX_ATTEMPTS then Pending else Failed)"
    "decodeAttempts r4 < MAX_ATTEMPTS \<longrightarrow>
       (\<forall>ss. list_all noStoreFailure ss \<and> list_all (\<lambda>env. decodeOk env (txByteCode demoTransfer)) ss \<and>
             backlog (enrichCycles [failEnv, failEnv, failEnv, failEnv] [demoTransfer]) 7 \<le> length ss \<longrightarrow>
         (\<exists>r'. rowOf (enrichCycles ([failEnv, failEnv, failEnv, failEnv] @ ss) [demoTransfer]) 7 = Some r' \<and>
               decodeStatus r' = Ok \<and> decodeAttempts r' = decodeAttempts r4 + 1 \<and>
               lastDecodeError r' = None \<and>
               r' \<notin> set (findPending (enrichCycles ([failEnv, failEnv, failEnv, failEnv] @ ss) [demoTransfer]))))"
    by blast
  have a4: "decodeAttempts r4 = 4" "decodeStatus r4 = Pending"
    using r4(2,3) small by (simp_all add: MAX_ATTEMPTS_def)
  have "decodeAttempts r4 < MAX_ATTEMPTS" using a4 by (simp add: MAX_ATTEMPTS_def)
  with r4(4) oks b4 obtain r4' where r4':
    "rowOf (enrichCycles ([failEnv, failEnv, failEnv, failEnv] @ [okEnv]) [demoTransfer]) 7 = Some r4'"
    "decodeStatus r4' = Ok" "decodeAttempts r4' = decodeAttempts r4 + 1" "lastDecodeError r4' = None"
    by blast
  have a5: "decodeAttempts r4' = 5" using r4'(3) a4 by simp
  note one = r4(1) a4 r4'(1,2,4) a5
  from t[OF 5] small obtain r5 where
    "rowOf (enrichCycles [failEnv, failEnv, failEnv, failEnv, failEnv] [demoTransfer]) 7 = Some r5"
    "decodeAttempts r5 = 5" "decodeStatus r5 = Failed"
    by (auto simp: MAX_ATTEMPTS_def)
  note five = this
  from t[OF 7] small obtain r7 where
    "rowOf (enrichCycles [failEnv, failEnv, failEnv, failEnv, failEnv, failEnv, failEnv] [demoTransfer]) 7 = Some r7"
    "decodeAttempts r7 = 5"
    by (auto simp: MAX_ATTEMPTS_def)
  note seven = this
  show ?thesis
    unfolding len op22 bl big(1) one(1) one(4) five(1) seven(1)
    using n22 n21 s20 big(2,3) one(2,3,5,6,7) five(2,3) seven(2) by simp
qed

end
